theory Spec2Isabelle
  imports Complex_Main "HOL-Library.Multiset"
begin

section \<open>Chamber state and test manager (test\_manager.py)\<close>

text \<open>
  Pressures, durations and clock readings are Python floats in the source; they are modelled
  as real numbers, so rounding is not represented. A Python attribute that the source compares
  with \<open>None\<close> is an option.
\<close>

text \<open>\<open>PRESSURE_DEFAULTS\<close> of constants.py (the definitions in force after the module is loaded).\<close>

definition PRESSURE_DEFAULTS_TARGET :: real where
  "PRESSURE_DEFAULTS_TARGET = 150"

definition PRESSURE_DEFAULTS_THRESHOLD :: real where
  "PRESSURE_DEFAULTS_THRESHOLD = 5"

definition PRESSURE_DEFAULTS_TOLERANCE :: real where
  "PRESSURE_DEFAULTS_TOLERANCE = 2"

definition PRESSURE_DEFAULTS_MAX_PRESSURE :: real where
  "PRESSURE_DEFAULTS_MAX_PRESSURE = 600"

definition TIME_DEFAULTS_TEST_DURATION :: real where
  "TIME_DEFAULTS_TEST_DURATION = 90"

text \<open>
  \<open>class ChamberTestState\<close>. The field \<open>result\<close> is an option because
  \<open>_run_testing_phase\<close> tests \<open>chamber.result is None\<close>; the PID controller
  object is kept in its own section and is not needed by the functions of this one, so only its
  presence is recorded here.
\<close>

record ChamberTestState =
  chamber_index :: nat
  enabled :: bool
  pressure_target :: real
  pressure_threshold :: real
  pressure_tolerance :: real
  current_pressure :: real
  pressure_readings :: "real list"
  start_pressure :: real
  final_pressure :: real
  result :: "bool option"
  filled :: bool
  regulated :: bool
  stabilized :: bool
  tested :: bool
  has_pid_controller :: bool

text \<open>\<open>ChamberTestState.__init__\<close>\<close>

definition ChamberTestState_init :: "nat \<Rightarrow> ChamberTestState" where
  "ChamberTestState_init i =
     \<lparr> chamber_index = i,
       enabled = True,
       pressure_target = PRESSURE_DEFAULTS_TARGET,
       pressure_threshold = PRESSURE_DEFAULTS_THRESHOLD,
       pressure_tolerance = PRESSURE_DEFAULTS_TOLERANCE,
       current_pressure = 0,
       pressure_readings = [],
       start_pressure = 0,
       final_pressure = 0,
       result = Some False,
       filled = False,
       regulated = False,
       stabilized = False,
       tested = False,
       has_pid_controller = False \<rparr>"

text \<open>\<open>ChamberTestState.reset\<close>\<close>

definition reset :: "ChamberTestState \<Rightarrow> ChamberTestState" where
  "reset ch =
     ch\<lparr> current_pressure := 0,
         pressure_readings := [],
         start_pressure := 0,
         final_pressure := 0,
         result := Some False,
         filled := False,
         regulated := False,
         stabilized := False,
         tested := False \<rparr>"

text \<open>\<open>ChamberTestState.init_pid_controller\<close>\<close>

definition init_pid_controller :: "ChamberTestState \<Rightarrow> ChamberTestState" where
  "init_pid_controller ch = ch\<lparr> has_pid_controller := True \<rparr>"

text \<open>
  The part of \<open>class TestManager\<close> that the functions below read or write.
  \<open>stop_requested\<close> is the attribute \<open>_stop_requested\<close>.
\<close>

record TestManager =
  test_duration :: real
  chamber_states :: "ChamberTestState list"
  test_state :: string
  test_phase :: "string option"
  elapsed_time :: real
  running_test :: bool
  stop_requested :: bool

text \<open>\<open>TestManager.__init__\<close>\<close>

definition TestManager_init :: TestManager where
  "TestManager_init =
     \<lparr> test_duration = TIME_DEFAULTS_TEST_DURATION,
       chamber_states = map ChamberTestState_init [0, 1, 2],
       test_state = ''IDLE'',
       test_phase = None,
       elapsed_time = 0,
       running_test = False,
       stop_requested = False \<rparr>"

subsection \<open>set\_chamber\_parameters\<close>

text \<open>
  The values of the \<open>params\<close> dictionary. The source converts them with \<open>bool(...)\<close>
  and \<open>float(...)\<close>; the model covers the two kinds of value the callers pass, booleans
  and numbers, on which both conversions succeed.
\<close>

datatype pyval = PBool bool | PNum real

fun py_bool :: "pyval \<Rightarrow> bool" where
  "py_bool (PBool b) = b"
| "py_bool (PNum x) = (x \<noteq> 0)"

fun py_float :: "pyval \<Rightarrow> real" where
  "py_float (PBool b) = (if b then 1 else 0)"
| "py_float (PNum x) = x"

text \<open>
  \<open>TestManager.set_chamber_parameters\<close>. The chamber object is mutated in place, field
  by field, so each early \<open>return False\<close> leaves the assignments made before it; the model
  returns the manager as it is at the moment of the return.
\<close>

definition set_chamber :: "TestManager \<Rightarrow> nat \<Rightarrow> ChamberTestState \<Rightarrow> TestManager" where
  "set_chamber m i ch = m\<lparr> chamber_states := (chamber_states m)[i := ch] \<rparr>"

definition set_chamber_parameters ::
  "TestManager \<Rightarrow> int \<Rightarrow> (string \<rightharpoonup> pyval) \<Rightarrow> bool \<times> TestManager" where
  "set_chamber_parameters m chamber_idx params =
     (if \<not> (0 \<le> chamber_idx \<and> chamber_idx \<le> 2) then (False, m)
      else if running_test m then (False, m)
      else
        let i = nat chamber_idx;
            chamber = chamber_states m ! i;
            chamber1 = (case params ''enabled'' of
                          None \<Rightarrow> chamber
                        | Some v \<Rightarrow> chamber\<lparr> enabled := py_bool v \<rparr>)
        in case (case params ''pressure_target'' of
                   None \<Rightarrow> Some chamber1
                 | Some v \<Rightarrow>
                     let target = py_float v
                     in if 0 \<le> target \<and> target \<le> PRESSURE_DEFAULTS_MAX_PRESSURE
                        then Some (chamber1\<lparr> pressure_target := target \<rparr>)
                        else None) of
             None \<Rightarrow> (False, set_chamber m i chamber1)
           | Some chamber2 \<Rightarrow>
        (case (case params ''pressure_threshold'' of
                   None \<Rightarrow> Some chamber2
                 | Some v \<Rightarrow>
                     let threshold = py_float v
                     in if threshold \<ge> 0
                        then Some (chamber2\<lparr> pressure_threshold := threshold \<rparr>)
                        else None) of
             None \<Rightarrow> (False, set_chamber m i chamber2)
           | Some chamber3 \<Rightarrow>
        (case (case params ''pressure_tolerance'' of
                   None \<Rightarrow> Some chamber3
                 | Some v \<Rightarrow>
                     let tolerance = py_float v
                     in if tolerance \<ge> 0
                        then Some (chamber3\<lparr> pressure_tolerance := tolerance \<rparr>)
                        else None) of
             None \<Rightarrow> (False, set_chamber m i chamber3)
           | Some chamber4 \<Rightarrow> (True, set_chamber m i chamber4))))"

subsection \<open>The stop flag\<close>

text \<open>
  \<open>TestManager._check_stop_requested\<close>. The status callback it fires is an observer
  outside the manager; it is not part of the state.
\<close>

definition check_stop_requested :: "TestManager \<Rightarrow> bool \<times> TestManager" where
  "check_stop_requested m =
     (if stop_requested m then
        (if test_state m \<noteq> ''STOPPING'' \<and> test_state m \<noteq> ''EMPTYING''
         then (True, m\<lparr> test_state := ''STOPPING'' \<rparr>)
         else (True, m))
      else (False, m))"

subsection \<open>The monitoring thread and the TESTING phase\<close>

text \<open>
  The driver thread shares the manager with two other threads: the monitoring thread, which
  writes \<open>current_pressure\<close>, and the thread that calls \<open>stop_test\<close>. One
  \<open>tick\<close> is what the driver observes in one iteration of a polling loop: the clock it
  reads in the body (\<open>time.time()\<close>), and what the other threads did while it slept at
  the end of the body: whether \<open>stop_test\<close> set the stop flag, and the list
  \<open>read_all_pressures\<close> returned to the monitoring thread, if it ran.
\<close>

record tick =
  t_now :: real
  t_stop :: bool
  t_pressures :: "real option list"

text \<open>
  The body of \<open>TestManager._monitor_pressure\<close>: a reading that is not \<open>None\<close>
  is stored in the chamber of the same index.
\<close>

fun publish_pressures :: "real option list \<Rightarrow> ChamberTestState list \<Rightarrow> ChamberTestState list" where
  "publish_pressures (p # ps) (ch # chs) =
     (case p of None \<Rightarrow> ch | Some v \<Rightarrow> ch\<lparr> current_pressure := v \<rparr>) # publish_pressures ps chs"
| "publish_pressures _ chs = chs"

definition during_sleep :: "tick \<Rightarrow> TestManager \<Rightarrow> TestManager" where
  "during_sleep t m =
     m\<lparr> chamber_states := publish_pressures (t_pressures t) (chamber_states m),
        stop_requested := (stop_requested m \<or> t_stop t) \<rparr>"

text \<open>The inner \<open>for chamber in self.chamber_states\<close> of the main test loop.\<close>

definition testing_sample :: "ChamberTestState \<Rightarrow> ChamberTestState" where
  "testing_sample chamber =
     (if \<not> enabled chamber \<or> \<not> stabilized chamber then chamber
      else
        let chamber1 = chamber\<lparr> pressure_readings :=
                          pressure_readings chamber @ [current_pressure chamber] \<rparr>
        in if current_pressure chamber1 < pressure_threshold chamber1
           then chamber1\<lparr> result := Some False \<rparr>
           else chamber1)"

text \<open>
  The loop after the main test loop (``Calculate final result for each chamber''). The
  attribute \<open>result\<close> exists on every chamber, so \<open>not hasattr(chamber, 'result')\<close>
  is false and the assignment runs only when the attribute holds \<open>None\<close>.
\<close>

definition testing_finalize :: "ChamberTestState \<Rightarrow> ChamberTestState" where
  "testing_finalize chamber =
     (if enabled chamber \<and> stabilized chamber then
        chamber\<lparr> tested := True,
                 final_pressure := current_pressure chamber,
                 result := (if result chamber = None then Some True else result chamber) \<rparr>
      else chamber)"

text \<open>
  The main test loop, \<open>while self.elapsed_time < test_duration and not
  self._check_stop_requested()\<close>. The loop runs as long as the clock has not reached the
  duration and no stop was requested; the model returns \<open>None\<close> when the list of ticks
  ends while the loop would still go on.
\<close>

definition testing_body :: "real \<Rightarrow> tick \<Rightarrow> TestManager \<Rightarrow> TestManager" where
  "testing_body start_time t m =
     (let m1 = m\<lparr> elapsed_time := t_now t - start_time \<rparr>
      in during_sleep t (m1\<lparr> chamber_states := map testing_sample (chamber_states m1) \<rparr>))"

fun testing_loop :: "real \<Rightarrow> real \<Rightarrow> tick list \<Rightarrow> TestManager \<Rightarrow> TestManager option" where
  "testing_loop start_time duration [] m =
     (if elapsed_time m < duration then
        (case check_stop_requested m of
           (True, m1) \<Rightarrow> Some m1
         | (False, m1) \<Rightarrow> None)
      else Some m)"
| "testing_loop start_time duration (t # ts) m =
     (if elapsed_time m < duration then
        (case check_stop_requested m of
           (True, m1) \<Rightarrow> Some m1
         | (False, m1) \<Rightarrow> testing_loop start_time duration ts (testing_body start_time t m1))
      else Some m)"

text \<open>
  \<open>TestManager._run_testing_phase\<close>; \<open>start_time\<close> is the clock read before the
  loop. The result is the returned boolean and the manager.
\<close>

definition run_testing_phase ::
  "real \<Rightarrow> tick list \<Rightarrow> TestManager \<Rightarrow> (bool \<times> TestManager) option" where
  "run_testing_phase start_time ticks m =
     (let m0 = m\<lparr> test_phase := Some ''testing'', test_state := ''TESTING'' \<rparr>
      in case testing_loop start_time (test_duration m0) ticks m0 of
           None \<Rightarrow> None
         | Some m1 \<Rightarrow>
             let m2 = m1\<lparr> chamber_states := map testing_finalize (chamber_states m1) \<rparr>;
                 (stop, m3) = check_stop_requested m2
             in Some (\<not> stop, m3))"

text \<open>
  The chamber loop of \<open>TestManager.start_test\<close> (\<open>chamber.reset()\<close>, then
  \<open>chamber.init_pid_controller()\<close>) with the initialisation of the test state before it.
\<close>

definition start_test_init :: "TestManager \<Rightarrow> TestManager" where
  "start_test_init m =
     m\<lparr> stop_requested := False,
        running_test := True,
        test_state := ''IDLE'',
        test_phase := None,
        elapsed_time := 0,
        chamber_states := map (init_pid_controller \<circ> reset) (chamber_states m) \<rparr>"

text \<open>
  The end of \<open>TestManager._run_stabilization_phase\<close> (``Mark all chambers as
  stabilized'').
\<close>

definition mark_stabilized :: "ChamberTestState \<Rightarrow> ChamberTestState" where
  "mark_stabilized chamber =
     (if enabled chamber \<and> regulated chamber
      then chamber\<lparr> stabilized := True, start_pressure := current_pressure chamber \<rparr>
      else chamber)"

text \<open>
  The overall result computed by \<open>TestManager._process_results\<close>: the loop sets it to
  false and breaks at the first enabled chamber that has \<open>not chamber.tested or not
  chamber.result\<close>.
\<close>

fun overall_result :: "ChamberTestState list \<Rightarrow> bool" where
  "overall_result [] = True"
| "overall_result (chamber # chambers) =
     (if enabled chamber then
        (if tested chamber \<and> result chamber = Some True
         then overall_result chambers
         else False)
      else overall_result chambers)"

subsection \<open>Concrete runs of the TESTING phase\<close>

text \<open>
  The manager as it is when TESTING starts in a run of the three default chambers
  (target 150, threshold 5, tolerance 2) in which every chamber was filled, regulated and
  stabilized while reading \<open>p\<close>.
\<close>

definition stabilized_manager :: "real \<Rightarrow> TestManager" where
  "stabilized_manager p =
     (let m = start_test_init TestManager_init
      in m\<lparr> chamber_states :=
              map (\<lambda>chamber. mark_stabilized
                     (chamber\<lparr> current_pressure := p, filled := True, regulated := True \<rparr>))
                (chamber_states m) \<rparr>)"

text \<open>All readings held at 150 until the test duration (90 s) has elapsed.\<close>

definition hold_ticks :: "tick list" where
  "hold_ticks =
     [\<lparr> t_now = 45, t_stop = False, t_pressures = [Some 150, Some 150, Some 150] \<rparr>,
      \<lparr> t_now = 91, t_stop = False, t_pressures = [Some 150, Some 150, Some 150] \<rparr>]"

text \<open>The reading of chamber 2 drops to 3 once and recovers.\<close>

definition dip_ticks :: "tick list" where
  "dip_ticks =
     [\<lparr> t_now = 30, t_stop = False, t_pressures = [Some 150, Some 150, Some 3] \<rparr>,
      \<lparr> t_now = 60, t_stop = False, t_pressures = [Some 150, Some 150, Some 150] \<rparr>,
      \<lparr> t_now = 91, t_stop = False, t_pressures = [Some 150, Some 150, Some 150] \<rparr>]"

text \<open>A parameter dictionary that disables the chamber and carries a negative tolerance.\<close>

definition disable_with_bad_tolerance :: "string \<rightharpoonup> pyval" where
  "disable_with_bad_tolerance =
     [''enabled'' \<mapsto> PBool False, ''pressure_tolerance'' \<mapsto> PNum (- 1)]"

text \<open>
  The relation between a chamber when TESTING starts (\<open>c0\<close>) and later in the phase
  (\<open>c\<close>), used as the loop invariant: the configuration is unchanged, readings are only
  appended, and a reading below the threshold among the appended ones has set the result to
  false.
\<close>

definition dip_latched :: "ChamberTestState \<Rightarrow> ChamberTestState \<Rightarrow> bool" where
  "dip_latched c0 c \<longleftrightarrow>
     enabled c = enabled c0 \<and> stabilized c = stabilized c0 \<and>
     pressure_threshold c = pressure_threshold c0 \<and>
     length (pressure_readings c0) \<le> length (pressure_readings c) \<and>
     ((\<exists>p \<in> set (drop (length (pressure_readings c0)) (pressure_readings c)).
          p < pressure_threshold c0) \<longrightarrow> result c = Some False)"

subsection \<open>The test run\<close>

text \<open>
  \<open>TestManager._run_test\<close> starts the monitoring thread and calls the phases in order
  inside \<open>try\<close> / \<open>except\<close> / \<open>finally\<close>. To state what it guarantees
  whatever the phases do, the model takes them as parameters. A call acts on the manager and
  on the world outside it (valves, sensor, threads), of an arbitrary type \<open>'w\<close>; it
  gives an outcome, which is either an exception (\<open>Inl\<close>, with its message) or a
  returned value (\<open>Inr\<close>), the manager and the world after it. The observers (status
  callback; logger, printer and result callback at the end of \<open>_process_results\<close>) do
  not change the manager; they either return or raise.
\<close>

type_synonym ('w, 'a) call = "TestManager \<Rightarrow> 'w \<Rightarrow> (string + 'a) \<times> TestManager \<times> 'w"

record 'w collaborators =
  start_monitoring :: "('w, unit) call"
  filling_phase :: "('w, bool) call"
  regulation_phase :: "('w, bool) call"
  stabilization_phase :: "('w, bool) call"
  testing_phase :: "('w, bool) call"
  emptying_phase :: "('w, bool) call"
  status_callback :: "string \<Rightarrow> string \<Rightarrow> string option"
  report_results :: "bool \<Rightarrow> TestManager \<Rightarrow> string option"

text \<open>The methods \<open>_run_test\<close> invokes, recorded in the order of invocation.\<close>

datatype event = Invoked string

text \<open>
  \<open>TestManager._update_status\<close>: the callback receives the test state and the message.
  The result is the exception it raised, if any.
\<close>

definition update_status :: "'w collaborators \<Rightarrow> string \<Rightarrow> TestManager \<Rightarrow> string option" where
  "update_status env message m = status_callback env (test_state m) message"

text \<open>
  \<open>TestManager._process_results\<close>: the state is set before the observers are called.
\<close>

definition process_results ::
  "'w collaborators \<Rightarrow> bool \<Rightarrow> TestManager \<Rightarrow> (string + unit) \<times> TestManager" where
  "process_results env success m =
     (if \<not> success then
        (let m1 = m\<lparr> test_state := (if stop_requested m then ''STOPPED'' else ''ERROR'') \<rparr>
         in case update_status env
                   (if stop_requested m then ''Test stopped'' else ''Test error'') m1 of
              Some e \<Rightarrow> (Inl e, m1)
            | None \<Rightarrow> (Inr (), m1))
      else
        (let overall = overall_result (chamber_states m);
             m1 = m\<lparr> test_state := ''COMPLETE'' \<rparr>
         in case update_status env
                   (''Test complete - '' @ (if overall then ''PASS'' else ''FAIL'')) m1 of
              Some e \<Rightarrow> (Inl e, m1)
            | None \<Rightarrow>
                (case report_results env overall m1 of
                   Some e \<Rightarrow> (Inl e, m1)
                 | None \<Rightarrow> (Inr (), m1))))"

text \<open>
  One line of the inner \<open>try\<close> block, \<open>if not self._run_..._phase(): raise
  Exception("... phase failed")\<close>: the phase is invoked; its exception, or the exception
  raised on a false return, leaves the block.
\<close>

definition phase_step ::
  "string \<Rightarrow> string \<Rightarrow> ('w, bool) call \<Rightarrow> event list \<times> TestManager \<times> 'w \<Rightarrow>
   (string + unit) \<times> event list \<times> TestManager \<times> 'w" where
  "phase_step name failure phase s =
     (case s of (trace, m, w) \<Rightarrow>
        (case phase m w of
           (Inl e, m1, w1) \<Rightarrow> (Inl e, trace @ [Invoked name], m1, w1)
         | (Inr ok, m1, w1) \<Rightarrow>
             (if ok then (Inr (), trace @ [Invoked name], m1, w1)
              else (Inl failure, trace @ [Invoked name], m1, w1))))"

text \<open>
  The inner \<open>try\<close> block up to \<open>result = True\<close>; the local variable
  \<open>result\<close> of the source is \<open>success\<close> below.
\<close>

definition run_phases ::
  "'w collaborators \<Rightarrow> event list \<times> TestManager \<times> 'w \<Rightarrow>
   (string + unit) \<times> event list \<times> TestManager \<times> 'w" where
  "run_phases env s =
     (case phase_step ''_run_filling_phase'' ''Fill phase failed'' (filling_phase env) s of
        (Inl e, s1) \<Rightarrow> (Inl e, s1)
      | (Inr _, s1) \<Rightarrow>
     (case phase_step ''_run_regulation_phase'' ''Regulation phase failed''
             (regulation_phase env) s1 of
        (Inl e, s2) \<Rightarrow> (Inl e, s2)
      | (Inr _, s2) \<Rightarrow>
     (case phase_step ''_run_stabilization_phase'' ''Stabilization phase failed''
             (stabilization_phase env) s2 of
        (Inl e, s3) \<Rightarrow> (Inl e, s3)
      | (Inr _, s3) \<Rightarrow>
        phase_step ''_run_testing_phase'' ''Testing phase failed'' (testing_phase env) s3)))"

text \<open>
  The inner \<open>finally\<close> block: the emptying phase is executed, then the results are
  processed, then monitoring is stopped. An exception raised here leaves the block at once.
  The result is that exception, if any. (\<open>_stop_monitoring\<close> catches what joining the
  thread may raise.)
\<close>

definition run_cleanup ::
  "'w collaborators \<Rightarrow> bool \<Rightarrow> event list \<times> TestManager \<times> 'w \<Rightarrow>
   string option \<times> event list \<times> TestManager \<times> 'w" where
  "run_cleanup env success s =
     (case s of (trace, m, w) \<Rightarrow>
        (case emptying_phase env m w of
           (Inl e, m1, w1) \<Rightarrow> (Some e, trace @ [Invoked ''_run_emptying_phase''], m1, w1)
         | (Inr _, m1, w1) \<Rightarrow>
             (case process_results env success m1 of
                (Inl e, m2) \<Rightarrow>
                  (Some e,
                   trace @ [Invoked ''_run_emptying_phase'', Invoked ''_process_results''],
                   m2, w1)
              | (Inr _, m2) \<Rightarrow>
                  (None,
                   trace @ [Invoked ''_run_emptying_phase'', Invoked ''_process_results'',
                            Invoked ''_stop_monitoring''],
                   m2, w1))))"

text \<open>
  The inner \<open>try\<close> statement as a whole. Its \<open>except\<close> clause sets the state to
  ERROR and reports; an exception raised by that report is pending while the
  \<open>finally\<close> block runs and is raised after it, unless the block raises one of its own.
  The result is the exception that leaves the statement, if any.
\<close>

definition run_guarded ::
  "'w collaborators \<Rightarrow> event list \<times> TestManager \<times> 'w \<Rightarrow>
   string option \<times> event list \<times> TestManager \<times> 'w" where
  "run_guarded env s =
     (case run_phases env s of (r1, trace1, m1, w1) \<Rightarrow>
      let success = (case r1 of Inl _ \<Rightarrow> False | Inr _ \<Rightarrow> True);
          (pending, m2) =
            (case r1 of
               Inr _ \<Rightarrow> (None, m1)
             | Inl e \<Rightarrow>
                 (let m' = m1\<lparr> test_state := ''ERROR'' \<rparr>
                  in (update_status env (''Error: '' @ e) m', m')))
      in case run_cleanup env success (trace1, m2, w1) of (raised, trace3, m3, w3) \<Rightarrow>
           ((case raised of Some e \<Rightarrow> Some e | None \<Rightarrow> pending), trace3, m3, w3))"

text \<open>
  \<open>TestManager._run_test\<close>. The result is the exception that leaves the method, if any,
  the invocations in order, the manager and the world at the end.

  \<open>_start_monitoring\<close> is called inside the outer \<open>try\<close> but before the inner
  one: when it raises, the inner statement, and with it the emptying phase, is skipped. The
  outer \<open>except\<close> clause handles whatever left the statements before it; the outer
  \<open>finally\<close> block clears \<open>running_test\<close>.
\<close>

definition run_test ::
  "'w collaborators \<Rightarrow> TestManager \<Rightarrow> 'w \<Rightarrow>
   string option \<times> event list \<times> TestManager \<times> 'w" where
  "run_test env m w =
     (case (case start_monitoring env m w of
              (Inl e, m0, w0) \<Rightarrow> (Some e, [Invoked ''_start_monitoring''], m0, w0)
            | (Inr _, m0, w0) \<Rightarrow> run_guarded env ([Invoked ''_start_monitoring''], m0, w0)) of
        (leaving, trace, m3, w3) \<Rightarrow>
      let (escaped, m4) =
            (case leaving of
               None \<Rightarrow> (None, m3)
             | Some e \<Rightarrow>
                 (let m' = m3\<lparr> test_state := ''ERROR'' \<rparr>
                  in (update_status env (''Unhandled error: '' @ e) m', m')));
          m5 = m4\<lparr> running_test := False \<rparr>
      in if test_state m5 \<notin> set [''COMPLETE'', ''ERROR'', ''STOPPED''] then
           (let m6 = m5\<lparr> test_state := ''IDLE'' \<rparr>
            in (case update_status env ''Test idle'' m6 of
                  Some e \<Rightarrow> (Some e, trace, m6, w3)
                | None \<Rightarrow> (escaped, trace, m6, w3)))
         else (escaped, trace, m5, w3))"

text \<open>
  Counting the executions of the emptying phase. The world is paired with a counter; the
  emptying phase of the counting collaborators does what the given one does and adds one to
  the counter, and every other call does what the given one does and leaves the counter
  alone.
\<close>

definition uncounted :: "('w, 'a) call \<Rightarrow> ('w \<times> nat, 'a) call" where
  "uncounted c m wn =
     (case c m (fst wn) of (r, m1, w1) \<Rightarrow> (r, m1, (w1, snd wn)))"

definition counted :: "('w, 'a) call \<Rightarrow> ('w \<times> nat, 'a) call" where
  "counted c m wn =
     (case c m (fst wn) of (r, m1, w1) \<Rightarrow> (r, m1, (w1, Suc (snd wn))))"

definition counting_emptying :: "'w collaborators \<Rightarrow> ('w \<times> nat) collaborators" where
  "counting_emptying env =
     \<lparr> start_monitoring = uncounted (start_monitoring env),
       filling_phase = uncounted (filling_phase env),
       regulation_phase = uncounted (regulation_phase env),
       stabilization_phase = uncounted (stabilization_phase env),
       testing_phase = uncounted (testing_phase env),
       emptying_phase = counted (emptying_phase env),
       status_callback = status_callback env,
       report_results = report_results env \<rparr>"

text \<open>A result of the run with a given value of the counter added to its world.\<close>

definition with_count ::
  "nat \<Rightarrow> 'r \<times> event list \<times> TestManager \<times> 'w \<Rightarrow>
   'r \<times> event list \<times> TestManager \<times> ('w \<times> nat)" where
  "with_count n x = (case x of (r, trace, m, w) \<Rightarrow> (r, trace, m, (w, n)))"

text \<open>
  Calls for concrete runs, on a world that is the list of what was done to the valves: a
  phase that sets the state and returns a given value, as a phase that succeeds, times out or
  is stopped does; one that sets the state and raises; an emptying phase that vents; and the
  start of the monitoring thread, which returns or raises.
\<close>

definition phase_returning :: "string \<Rightarrow> bool \<Rightarrow> (string list, bool) call" where
  "phase_returning state ok m w = (Inr ok, m\<lparr> test_state := state \<rparr>, w)"

definition phase_raising :: "string \<Rightarrow> string \<Rightarrow> (string list, bool) call" where
  "phase_raising state message m w = (Inl message, m\<lparr> test_state := state \<rparr>, w)"

definition emptying_vents :: "(string list, bool) call" where
  "emptying_vents m w =
     (Inr True, m\<lparr> test_state := ''EMPTYING'', test_phase := Some ''emptying'' \<rparr>,
      w @ [''vented''])"

definition monitoring_starts :: "(string list, unit) call" where
  "monitoring_starts m w = (Inr (), m, w)"

definition monitoring_raises :: "(string list, unit) call" where
  "monitoring_raises m w = (Inl ''can't start new thread'', m, w)"

text \<open>A run whose regulation phase raises, with observers that never raise.\<close>

definition regulation_raises :: "string list collaborators" where
  "regulation_raises =
     \<lparr> start_monitoring = monitoring_starts,
       filling_phase = phase_returning ''FILLING'' True,
       regulation_phase = phase_raising ''REGULATING'' ''valve fault'',
       stabilization_phase = phase_returning ''STABILIZING'' True,
       testing_phase = phase_returning ''TESTING'' True,
       emptying_phase = emptying_vents,
       status_callback = (\<lambda>state message. None),
       report_results = (\<lambda>overall m. None) \<rparr>"

text \<open>A run in which the monitoring thread cannot be started.\<close>

definition monitoring_fails :: "string list collaborators" where
  "monitoring_fails = regulation_raises\<lparr> start_monitoring := monitoring_raises \<rparr>"

section \<open>The pressure regulator\<close>

subsection \<open>PIDControllerWrapper (pid\_controller.py)\<close>

text \<open>
  One entry of \<open>self.modes\<close>: the error threshold of the mode and its base pulse
  durations in seconds.
\<close>

record mode_config =
  threshold :: real
  pulse_on :: real
  pulse_off :: real

definition modes_fast :: mode_config where
  "modes_fast = \<lparr> threshold = 40, pulse_on = 0.3, pulse_off = 0.1 \<rparr>"

definition modes_medium :: mode_config where
  "modes_medium = \<lparr> threshold = 15, pulse_on = 0.2, pulse_off = 0.2 \<rparr>"

definition modes_fine :: mode_config where
  "modes_fine = \<lparr> threshold = 5, pulse_on = 0.1, pulse_off = 0.3 \<rparr>"

text \<open>\<open>self.modes[mode]\<close>, for the three keys of the dictionary.\<close>

definition modes :: "string \<rightharpoonup> mode_config" where
  "modes = [''fast'' \<mapsto> modes_fast, ''medium'' \<mapsto> modes_medium, ''fine'' \<mapsto> modes_fine]"

text \<open>
  The state of the wrapper that \<open>compute_adaptive_pulse\<close> uses. The \<open>simple_pid\<close>
  object it also holds belongs to an external library and plays no part in that method.
\<close>

record PIDControllerWrapper =
  setpoint :: real
  sample_time :: real
  last_pressure :: "real option"
  pressure_history :: "real list"

text \<open>
  \<open>PIDControllerWrapper.__init__\<close> as \<open>init_pid_controller\<close> calls it: the given
  setpoint and the default sample time.
\<close>

definition PIDControllerWrapper_init :: "real \<Rightarrow> PIDControllerWrapper" where
  "PIDControllerWrapper_init sp =
     \<lparr> setpoint = sp, sample_time = 0.1, last_pressure = None, pressure_history = [] \<rparr>"

text \<open>The dictionary \<open>compute_adaptive_pulse\<close> returns.\<close>

record pulse =
  out_pulse_on :: real
  out_pulse_off :: real
  out_mode :: string

text \<open>
  The generator sum \<open>sum(h[i] - h[i - 1] for i in range(1, len(h)))\<close> divided by
  \<open>max(1, len(h) - 1)\<close>.
\<close>

definition history_avg_rate :: "real list \<Rightarrow> real" where
  "history_avg_rate h =
     (\<Sum>i \<leftarrow> [1 ..< length h]. h ! i - h ! (i - 1)) / real (max 1 (length h - 1))"

text \<open>
  \<open>PIDControllerWrapper.compute_adaptive_pulse\<close>. The rate is computed for the debug log
  only, but its division by \<open>sample_time\<close> raises \<open>ZeroDivisionError\<close> when the
  sample time is zero, before the state is changed.
\<close>

definition compute_adaptive_pulse ::
  "PIDControllerWrapper \<Rightarrow> real \<Rightarrow> (string + pulse) \<times> PIDControllerWrapper" where
  "compute_adaptive_pulse pid cur =
     (let error = setpoint pid - cur;
          abs_error = \<bar>error\<bar>;
          mode = (if abs_error > threshold modes_fast then ''fast''
                  else if abs_error > threshold modes_medium then ''medium''
                  else ''fine'')
      in case modes mode of
           None \<Rightarrow> (Inl ''KeyError'', pid)
         | Some mode_cfg \<Rightarrow>
             if last_pressure pid \<noteq> None \<and> sample_time pid = 0
             then (Inl ''ZeroDivisionError'', pid)
             else
               let appended = pressure_history pid @ [cur];
                   history = (if length appended > 10 then tl appended else appended);
                   avg_rate = history_avg_rate history;
                   rate_factor = min 1 (\<bar>avg_rate\<bar> / 10);
                   adjusted_on = pulse_on mode_cfg * (1 - rate_factor);
                   adjusted_off = pulse_off mode_cfg * (1 + rate_factor)
               in (Inr \<lparr> out_pulse_on = max 0.05 adjusted_on,
                          out_pulse_off = max 0.05 adjusted_off,
                          out_mode = mode \<rparr>,
                   pid\<lparr> last_pressure := Some cur, pressure_history := history \<rparr>))"

text \<open>Successive calls on the readings of a list, keeping the state only.\<close>

fun feed :: "PIDControllerWrapper \<Rightarrow> real list \<Rightarrow> PIDControllerWrapper" where
  "feed pid [] = pid"
| "feed pid (p # ps) = feed (snd (compute_adaptive_pulse pid p)) ps"

text \<open>
  The average rate in the words of the specification, for comparison: the per-sample rates
  \<open>(current - last) / sample_interval\<close> of the readings seen so far, a history of at most
  ten of them, and its mean (zero while there is none).
\<close>

definition spec_rates :: "real \<Rightarrow> real list \<Rightarrow> real list" where
  "spec_rates dt readings =
     (let rates = map (\<lambda>(previous, current). (current - previous) / dt) (zip readings (tl readings))
      in drop (length rates - 10) rates)"

definition spec_avg_rate :: "real \<Rightarrow> real list \<Rightarrow> real" where
  "spec_avg_rate dt readings =
     (let rates = spec_rates dt readings
      in if rates = [] then 0 else sum_list rates / real (length rates))"

text \<open>
  The pulse durations in the words of the specification: the base durations of the mode
  scaled by the rate factor of that average rate, with the floor of 0.05 s.
\<close>

definition spec_pulse :: "real \<Rightarrow> mode_config \<Rightarrow> real list \<Rightarrow> real \<times> real" where
  "spec_pulse dt cfg readings =
     (let rate_factor = min 1 (\<bar>spec_avg_rate dt readings\<bar> / 10)
      in (max 0.05 (pulse_on cfg * (1 - rate_factor)),
          max 0.05 (pulse_off cfg * (1 + rate_factor))))"

subsection \<open>The regulation loop of the test manager (test\_manager.py)\<close>

text \<open>
  The three control modes of \<open>_run_regulation_phase\<close> (thresholds in mbar from the
  target, pulses in seconds).
\<close>

definition fast_mode :: mode_config where
  "fast_mode = \<lparr> threshold = 10, pulse_on = 0.1, pulse_off = 0.05 \<rparr>"

definition medium_mode :: mode_config where
  "medium_mode = \<lparr> threshold = 5, pulse_on = 0.05, pulse_off = 0.1 \<rparr>"

definition fine_mode :: mode_config where
  "fine_mode = \<lparr> threshold = 1, pulse_on = 0.02, pulse_off = 0.2 \<rparr>"

text \<open>
  The entries of one chamber in the four dictionaries the phase keeps
  (\<open>regulation_states\<close>, \<open>pressure_rates\<close>, \<open>last_pressures\<close>,
  \<open>stable_counts\<close>), as they are initialised before the loop.
\<close>

record regulation_entry =
  regulation_states :: string
  pressure_rates :: "real list"
  last_pressures :: "real option"
  stable_counts :: nat


text \<open>What the driver does to the outside in one step: valve commands and sleeps.\<close>

datatype action = SetChamberValves nat bool bool | Sleep real

text \<open>
  The values one iteration computes for a chamber that is not marked regulated in it: the
  control mode, the average rate and the adjusted pulses.
\<close>

record control =
  mode_name :: string
  avg_rate :: real
  adjusted_pulse_on :: real
  adjusted_pulse_off :: real

text \<open>
  The middle of the loop body (``Determine control mode based on error magnitude'' to
  ``Adaptive pulse timing based on rate of change''), from the absolute error and the rate
  history of the chamber.
\<close>

definition select_control :: "real \<Rightarrow> real list \<Rightarrow> control" where
  "select_control abs_error rates =
     (let (control_mode, name) =
            (if abs_error > threshold fast_mode then (fast_mode, ''FAST'')
             else if abs_error > threshold medium_mode then (medium_mode, ''MEDIUM'')
             else (fine_mode, ''FINE''));
          avg = (if rates \<noteq> [] then sum_list rates / real (length rates) else 0);
          rate_factor = min 1 (\<bar>avg\<bar> / 10)
      in \<lparr> mode_name = name, avg_rate = avg,
           adjusted_pulse_on = pulse_on control_mode * (1 - rate_factor),
           adjusted_pulse_off = pulse_off control_mode * (1 + rate_factor) \<rparr>)"

text \<open>
  The body of \<open>for chamber in chambers_regulating\<close>: the chamber and its entries after
  the iteration, the valve commands and sleeps in order, and the control values unless the
  iteration ended at \<open>continue\<close>.
\<close>

definition regulate_chamber ::
  "ChamberTestState \<Rightarrow> regulation_entry \<Rightarrow>
   ChamberTestState \<times> regulation_entry \<times> action list \<times> control option" where
  "regulate_chamber chamber entry =
     (let idx = chamber_index chamber;
          cur = current_pressure chamber;
          target = pressure_target chamber;
          error = target - cur;
          abs_error = \<bar>error\<bar>;
          tolerance = pressure_tolerance chamber;
          rates = (case last_pressures entry of
                     None \<Rightarrow> pressure_rates entry
                   | Some previous \<Rightarrow>
                       (let appended = pressure_rates entry @ [(cur - previous) / 0.1]
                        in if length appended > 10 then tl appended else appended));
          entry1 = entry\<lparr> pressure_rates := rates, last_pressures := Some cur \<rparr>;
          entry2 = (if abs_error \<le> tolerance
                    then entry1\<lparr> stable_counts := stable_counts entry1 + 1 \<rparr>
                    else entry1\<lparr> stable_counts := 0 \<rparr>)
      in if abs_error \<le> tolerance \<and> stable_counts entry2 \<ge> 5 then
           (chamber\<lparr> regulated := True \<rparr>, entry2, [SetChamberValves idx False False], None)
         else
           let ctl = select_control abs_error rates;
               on = adjusted_pulse_on ctl;
               off = adjusted_pulse_off ctl
           in if error > tolerance then
                (chamber, entry2\<lparr> regulation_states := ''filling'' \<rparr>,
                 [SetChamberValves idx True False, Sleep on,
                  SetChamberValves idx False False, Sleep off], Some ctl)
              else if error < - tolerance then
                (chamber, entry2\<lparr> regulation_states := ''venting'' \<rparr>,
                 [SetChamberValves idx False True, Sleep (on * 1.5),
                  SetChamberValves idx False False, Sleep off], Some ctl)
              else
                (chamber, entry2\<lparr> regulation_states := ''stable'' \<rparr>,
                 [SetChamberValves idx False False], Some ctl))"



section \<open>Calibration (calibration\_db.py, calibration\_manager.py)\<close>

subsection \<open>NumPy floating point values\<close>

text \<open>
  The regression is computed on NumPy \<open>float64\<close> values, whose division by zero does
  not raise: it gives an infinity or NaN (with a warning), which then propagates through
  the arithmetic. Finite values are modelled as real numbers (no rounding, no overflow);
  the infinities and NaN are kept. The zero of the model is the positive zero: every
  divisor in the code below is a sum of squares.
\<close>

datatype npfloat = Num real | PInf | NInf | NaN

fun np_neg :: "npfloat \<Rightarrow> npfloat" where
  "np_neg (Num a) = Num (- a)"
| "np_neg PInf = NInf"
| "np_neg NInf = PInf"
| "np_neg NaN = NaN"

fun np_add :: "npfloat \<Rightarrow> npfloat \<Rightarrow> npfloat" where
  "np_add (Num a) (Num b) = Num (a + b)"
| "np_add NaN _ = NaN"
| "np_add _ NaN = NaN"
| "np_add PInf NInf = NaN"
| "np_add NInf PInf = NaN"
| "np_add PInf _ = PInf"
| "np_add _ PInf = PInf"
| "np_add NInf _ = NInf"
| "np_add _ NInf = NInf"

definition np_sub :: "npfloat \<Rightarrow> npfloat \<Rightarrow> npfloat" where
  "np_sub a b = np_add a (np_neg b)"

text \<open>The infinity with the sign of a product or quotient: positive when \<open>pos\<close>.\<close>

definition np_inf :: "bool \<Rightarrow> npfloat" where
  "np_inf pos = (if pos then PInf else NInf)"

fun np_mul :: "npfloat \<Rightarrow> npfloat \<Rightarrow> npfloat" where
  "np_mul (Num a) (Num b) = Num (a * b)"
| "np_mul NaN _ = NaN"
| "np_mul _ NaN = NaN"
| "np_mul PInf (Num b) = (if b = 0 then NaN else np_inf (b > 0))"
| "np_mul NInf (Num b) = (if b = 0 then NaN else np_inf (b < 0))"
| "np_mul (Num a) PInf = (if a = 0 then NaN else np_inf (a > 0))"
| "np_mul (Num a) NInf = (if a = 0 then NaN else np_inf (a < 0))"
| "np_mul PInf PInf = PInf"
| "np_mul NInf NInf = PInf"
| "np_mul PInf NInf = NInf"
| "np_mul NInf PInf = NInf"

fun np_div :: "npfloat \<Rightarrow> npfloat \<Rightarrow> npfloat" where
  "np_div (Num a) (Num b) =
     (if b = 0 then (if a = 0 then NaN else np_inf (a > 0)) else Num (a / b))"
| "np_div NaN _ = NaN"
| "np_div _ NaN = NaN"
| "np_div (Num a) _ = Num 0"
| "np_div PInf (Num b) = np_inf (b \<ge> 0)"
| "np_div NInf (Num b) = np_inf (b < 0)"
| "np_div _ _ = NaN"

text \<open>\<open>np.sum\<close> of an array of such values.\<close>

definition np_sum :: "npfloat list \<Rightarrow> npfloat" where
  "np_sum xs = foldl np_add (Num 0) xs"

subsection \<open>Calibration points and results\<close>

text \<open>
  A \<open>datetime\<close> is a count of microseconds. The database stores its \<open>isoformat()\<close>
  text and orders by that text, which orders naive datetimes as the counts are ordered.
\<close>

type_synonym datetime = nat

record CalibrationPoint =
  pressure :: real
  voltage :: real
  timestamp :: datetime

record CalibrationResult =
  chamber_id :: int
  multiplier :: npfloat
  offset :: npfloat
  r_squared :: npfloat
  calibration_date :: datetime
  points :: "CalibrationPoint list"

subsection \<open>The least-squares fit\<close>

text \<open>\<open>np.mean\<close> of a non-empty array of finite values.\<close>

definition np_mean :: "real list \<Rightarrow> real" where
  "np_mean xs = sum_list xs / real (length xs)"

text \<open>
  \<open>CalibrationDatabase.calculate_calibration\<close>; \<open>now\<close> is the value of
  \<open>datetime.now()\<close>. Neither division is guarded.
\<close>

definition CalibrationDatabase_calculate_calibration ::
  "int \<Rightarrow> CalibrationPoint list \<Rightarrow> datetime \<Rightarrow> string + CalibrationResult" where
  "CalibrationDatabase_calculate_calibration cid pts now =
     (if length pts < 2 then Inl ''ValueError: At least two calibration points required''
      else
        let x = map voltage pts;
            y = map pressure pts;
            x_mean = np_mean x;
            y_mean = np_mean y;
            mult = np_div (Num (\<Sum>(xi, yi) \<leftarrow> zip x y. (xi - x_mean) * (yi - y_mean)))
                          (Num (\<Sum>xi \<leftarrow> x. (xi - x_mean)\<^sup>2));
            off = np_sub (Num y_mean) (np_mul mult (Num x_mean));
            y_pred = map (\<lambda>xi. np_add (np_mul mult (Num xi)) off) x;
            r2 = np_sub (Num 1)
                   (np_div (np_sum (map (\<lambda>(yi, yp). let d = np_sub (Num yi) yp in np_mul d d)
                                        (zip y y_pred)))
                           (Num (\<Sum>yi \<leftarrow> y. (yi - y_mean)\<^sup>2)))
        in Inr \<lparr> chamber_id = cid, multiplier = mult, offset = off, r_squared = r2,
                 calibration_date = now, points = pts \<rparr>)"

text \<open>
  The state of \<open>CalibrationManager\<close> that its \<open>calculate_calibration\<close> reads.
\<close>

record CalibrationManager =
  current_chamber :: "int option"
  calibration_points :: "CalibrationPoint list"

text \<open>
  \<open>CalibrationManager.calculate_calibration\<close>. It returns \<open>None\<close> when no chamber
  is selected, with fewer than two points, and when the denominator of the slope is zero; the
  coefficient of determination is 0 when the total sum of squares is zero. With these guards
  every value is finite.
\<close>

definition CalibrationManager_calculate_calibration ::
  "CalibrationManager \<Rightarrow> datetime \<Rightarrow> CalibrationResult option" where
  "CalibrationManager_calculate_calibration mgr now =
     (case current_chamber mgr of
        None \<Rightarrow> None
      | Some chamber \<Rightarrow>
          if length (calibration_points mgr) < 2 then None
          else
            let x = map voltage (calibration_points mgr);
                y = map pressure (calibration_points mgr);
                x_mean = np_mean x;
                y_mean = np_mean y;
                numerator = (\<Sum>(xi, yi) \<leftarrow> zip x y. (xi - x_mean) * (yi - y_mean));
                denominator = (\<Sum>xi \<leftarrow> x. (xi - x_mean)\<^sup>2)
            in if denominator = 0 then None
               else
                 let mult = numerator / denominator;
                     off = y_mean - mult * x_mean;
                     y_pred = map (\<lambda>xi. mult * xi + off) x;
                     ss_total = (\<Sum>yi \<leftarrow> y. (yi - y_mean)\<^sup>2);
                     ss_residual = (\<Sum>(yi, yp) \<leftarrow> zip y y_pred. (yi - yp)\<^sup>2);
                     r2 = (if ss_total = 0 then 0 else 1 - ss_residual / ss_total)
                 in Some \<lparr> chamber_id = chamber, multiplier = Num mult, offset = Num off,
                            r_squared = Num r2, calibration_date = now,
                            points = calibration_points mgr \<rparr>)"

text \<open>
  The sum of the squared residuals of the points about the line \<open>a * voltage + b\<close>:
  the quantity a least-squares fit minimises (\<open>ss_residual\<close> of the source, for any
  line).
\<close>

definition residual_sum :: "CalibrationPoint list \<Rightarrow> real \<Rightarrow> real \<Rightarrow> real" where
  "residual_sum pts a b = (\<Sum>p \<leftarrow> pts. (pressure p - (a * voltage p + b))\<^sup>2)"

text \<open>Sets of calibration points for concrete fits.\<close>

definition two_points :: "CalibrationPoint list" where
  "two_points = [\<lparr> pressure = 0, voltage = 0, timestamp = 1 \<rparr>,
                 \<lparr> pressure = 1000, voltage = 1, timestamp = 2 \<rparr>]"

definition flat_points :: "CalibrationPoint list" where
  "flat_points = [\<lparr> pressure = 100, voltage = 0, timestamp = 1 \<rparr>,
                  \<lparr> pressure = 100, voltage = 1, timestamp = 2 \<rparr>]"

subsection \<open>The calibration store (calibration\_db.py)\<close>

text \<open>
  The two tables of the SQLite database, as lists of rows in the order of insertion. No
  statement of the module deletes a row, so the \<open>AUTOINCREMENT\<close> key of a new row is
  the number of rows plus one. The key column of \<open>calibration_points\<close> is never read
  and is left out.
\<close>

record calibration_record =
  rec_id :: nat
  rec_chamber_id :: int
  rec_multiplier :: npfloat
  rec_offset :: npfloat
  rec_r_squared :: npfloat
  rec_calibration_date :: datetime
  is_active :: bool

record calibration_point_row =
  calibration_id :: nat
  pt_pressure :: real
  pt_voltage :: real
  pt_timestamp :: datetime

record CalibrationDatabase =
  calibration_records :: "calibration_record list"
  calibration_point_rows :: "calibration_point_row list"

text \<open>\<open>CalibrationDatabase._init_database\<close> on a new file: two empty tables.\<close>

definition CalibrationDatabase_init :: CalibrationDatabase where
  "CalibrationDatabase_init = \<lparr> calibration_records = [], calibration_point_rows = [] \<rparr>"

text \<open>
  SQLite binds a NaN as \<open>NULL\<close>, and the three \<open>REAL\<close> columns of a record are
  \<open>NOT NULL\<close>: a result with a NaN cannot be inserted.
\<close>

definition storable :: "CalibrationResult \<Rightarrow> bool" where
  "storable cal \<longleftrightarrow> multiplier cal \<noteq> NaN \<and> offset cal \<noteq> NaN \<and> r_squared cal \<noteq> NaN"

text \<open>The rows inserted for the points of a calibration.\<close>

definition point_rows :: "nat \<Rightarrow> CalibrationPoint list \<Rightarrow> calibration_point_row list" where
  "point_rows cal_id pts =
     map (\<lambda>p. \<lparr> calibration_id = cal_id, pt_pressure = pressure p,
                 pt_voltage = voltage p, pt_timestamp = timestamp p \<rparr>) pts"

text \<open>
  What the statement \<open>UPDATE calibration_records SET is_active = 0 WHERE chamber_id = ? AND
  is_active = 1\<close> does to one row.
\<close>

definition deactivate :: "int \<Rightarrow> calibration_record \<Rightarrow> calibration_record" where
  "deactivate chamber r =
     (if rec_chamber_id r = chamber \<and> is_active r then r\<lparr> is_active := False \<rparr> else r)"

text \<open>
  \<open>CalibrationDatabase.save_calibration\<close>: the \<open>UPDATE\<close> that deactivates the active
  records of the chamber, the \<open>INSERT\<close> of the new record as active, and the
  \<open>INSERT\<close>s of its points, in one transaction. When the \<open>INSERT\<close> of the record
  raises \<open>IntegrityError\<close> the connection's context manager rolls the transaction back,
  and the database is unchanged.
\<close>

definition save_calibration ::
  "CalibrationDatabase \<Rightarrow> CalibrationResult \<Rightarrow> string + CalibrationDatabase" where
  "save_calibration db cal =
     (if \<not> storable cal then Inl ''IntegrityError''
      else
        let deactivated = map (deactivate (chamber_id cal)) (calibration_records db);
            lastrowid = Suc (length (calibration_records db));
            inserted = \<lparr> rec_id = lastrowid,
                         rec_chamber_id = chamber_id cal,
                         rec_multiplier = multiplier cal,
                         rec_offset = offset cal,
                         rec_r_squared = r_squared cal,
                         rec_calibration_date = calibration_date cal,
                         is_active = True \<rparr>
        in Inr \<lparr> calibration_records = deactivated @ [inserted],
                 calibration_point_rows =
                   calibration_point_rows db @ point_rows lastrowid (points cal) \<rparr>)"

text \<open>
  The inner query of both readers: the points of a calibration, \<open>ORDER BY timestamp\<close>.
  SQL leaves the order of rows with equal keys open; the model keeps them in the order of
  insertion.
\<close>

definition fetch_points :: "CalibrationDatabase \<Rightarrow> nat \<Rightarrow> CalibrationPoint list" where
  "fetch_points db cal_id =
     map (\<lambda>row. \<lparr> pressure = pt_pressure row, voltage = pt_voltage row,
                   timestamp = pt_timestamp row \<rparr>)
       (sort_key pt_timestamp
          (filter (\<lambda>row. calibration_id row = cal_id) (calibration_point_rows db)))"

text \<open>The \<open>CalibrationResult\<close> both readers build from a selected record.\<close>

definition result_of_record ::
  "CalibrationDatabase \<Rightarrow> int \<Rightarrow> calibration_record \<Rightarrow> CalibrationResult" where
  "result_of_record db chamber r =
     \<lparr> chamber_id = chamber,
       multiplier = rec_multiplier r,
       offset = rec_offset r,
       r_squared = rec_r_squared r,
       calibration_date = rec_calibration_date r,
       points = fetch_points db (rec_id r) \<rparr>"

text \<open>
  \<open>ORDER BY calibration_date DESC\<close>. Again the order of records with equal dates is
  open in SQL; the properties proved below do not depend on the choice made here.
\<close>

definition order_by_date_desc :: "calibration_record list \<Rightarrow> calibration_record list" where
  "order_by_date_desc rs = rev (sort_key rec_calibration_date rs)"

text \<open>\<open>CalibrationDatabase.get_active_calibration\<close>\<close>

definition get_active_calibration :: "CalibrationDatabase \<Rightarrow> int \<Rightarrow> CalibrationResult option" where
  "get_active_calibration db chamber =
     (case order_by_date_desc
             (filter (\<lambda>r. rec_chamber_id r = chamber \<and> is_active r) (calibration_records db)) of
        [] \<Rightarrow> None
      | r # _ \<Rightarrow> Some (result_of_record db chamber r))"

text \<open>
  \<open>CalibrationDatabase.get_calibration_history\<close>. A negative \<open>LIMIT\<close> is no limit
  in SQLite.
\<close>

definition get_calibration_history ::
  "CalibrationDatabase \<Rightarrow> int \<Rightarrow> int \<Rightarrow> CalibrationResult list" where
  "get_calibration_history db chamber limit =
     (let selected = order_by_date_desc
                       (filter (\<lambda>r. rec_chamber_id r = chamber) (calibration_records db));
          fetched = (if limit < 0 then selected else take (nat limit) selected)
      in map (result_of_record db chamber) fetched)"

text \<open>
  A sequence of saves on one database. A save that raises leaves the database as it was
  (\<open>CalibrationManager.save_calibration\<close> catches the exception and returns false).
\<close>

fun save_all :: "CalibrationDatabase \<Rightarrow> CalibrationResult list \<Rightarrow> CalibrationDatabase" where
  "save_all db [] = db"
| "save_all db (cal # cals) =
     save_all (case save_calibration db cal of Inl e \<Rightarrow> db | Inr db' \<Rightarrow> db') cals"

text \<open>
  A result as the store gives it back: the same values, with the points in the order of
  their timestamps.
\<close>

definition stored :: "CalibrationResult \<Rightarrow> CalibrationResult" where
  "stored cal = cal\<lparr> points := sort_key timestamp (points cal) \<rparr>"

text \<open>Two calibrations of chamber 0, the second more recent, and one of chamber 1.\<close>

definition first_calibration :: CalibrationResult where
  "first_calibration =
     \<lparr> chamber_id = 0, multiplier = Num 1000, offset = Num 0, r_squared = Num 1,
       calibration_date = 10, points = two_points \<rparr>"

definition second_calibration :: CalibrationResult where
  "second_calibration =
     \<lparr> chamber_id = 0, multiplier = Num 990, offset = Num 2, r_squared = Num 0.99,
       calibration_date = 20, points = two_points \<rparr>"

definition other_calibration :: CalibrationResult where
  "other_calibration =
     \<lparr> chamber_id = 1, multiplier = Num 1010, offset = Num 1, r_squared = Num 0.98,
       calibration_date = 15, points = two_points \<rparr>"

text \<open>
  What a database holds after the results \<open>saved\<close> were stored in it, in this order;
  the invariant of a sequence of saves. Every record read back is the stored form of the
  result saved at its position, the keys count the saves, every point row belongs to one of
  the records, and the active records of a chamber are the single record of the result saved
  last for it, if there is one.
\<close>

definition holds_saved :: "CalibrationDatabase \<Rightarrow> CalibrationResult list \<Rightarrow> bool" where
  "holds_saved db saved \<longleftrightarrow>
     map (\<lambda>r. result_of_record db (rec_chamber_id r) r) (calibration_records db)
       = map stored saved \<and>
     map rec_id (calibration_records db) = [1 ..< Suc (length saved)] \<and>
     list_all (\<lambda>row. calibration_id row \<le> length saved) (calibration_point_rows db) \<and>
     (\<forall>c. map (result_of_record db c)
               (filter (\<lambda>r. rec_chamber_id r = c \<and> is_active r) (calibration_records db))
            = (case filter (\<lambda>s. chamber_id s = c) (rev saved) of
                 [] \<Rightarrow> []
               | s # _ \<Rightarrow> [stored s]))"

section \<open>The pressure sensor (pressure\_sensor.py)\<close>

text \<open>
  \<open>ADC_CONVERSION\<close> of constants.py.
\<close>

definition ADC_CONVERSION_VOLTAGE_OFFSET :: real where
  "ADC_CONVERSION_VOLTAGE_OFFSET = - 0.579"

definition ADC_CONVERSION_VOLTAGE_MULTIPLIER :: real where
  "ADC_CONVERSION_VOLTAGE_MULTIPLIER = 1.286"

text \<open>
  The state of \<open>class PressureSensor\<close>. \<open>adc_present\<close> says that \<open>self.adc\<close>
  is not \<open>None\<close>.
\<close>

record PressureSensor =
  voltage_offset :: real
  voltage_multiplier :: real
  chamber_offsets :: "real list"
  adc_present :: bool
  initialized :: bool
  initialization_attempts :: nat
  last_init_attempt :: real
  init_retry_interval :: real
  alpha :: real
  filtered_values :: "real list"
  consecutive_errors :: "nat list"
  max_consecutive_errors :: nat
  error_sleep_duration :: real

text \<open>
  What the hardware and the clock answer during one call on the sensor: the clock, whether
  the construction of the ADS1115 driver succeeds, and what \<open>read_adc\<close> does (it raises
  an exception with a message, or returns the raw value).
\<close>

record device =
  d_now :: real
  d_init_ok :: bool
  d_read_adc :: "string + int"

text \<open>
  What a call does to the outside: it constructs the driver, reads a channel of the
  converter, or sleeps.
\<close>

datatype sensor_effect = InitDevice | ReadDevice nat | CooldownSleep real

text \<open>
  \<open>PressureSensor.__init__\<close> up to its last line, the first call of
  \<open>ensure_initialized\<close>.
\<close>

definition PressureSensor_new :: PressureSensor where
  "PressureSensor_new =
     \<lparr> voltage_offset = ADC_CONVERSION_VOLTAGE_OFFSET,
       voltage_multiplier = ADC_CONVERSION_VOLTAGE_MULTIPLIER,
       chamber_offsets = [0, 0, 0],
       adc_present = False,
       initialized = False,
       initialization_attempts = 0,
       last_init_attempt = 0,
       init_retry_interval = 5,
       alpha = 0.2,
       filtered_values = [0, 0, 0, 0],
       consecutive_errors = [0, 0, 0, 0],
       max_consecutive_errors = 5,
       error_sleep_duration = 2 \<rparr>"

text \<open>\<open>PressureSensor.ensure_initialized\<close>\<close>

definition ensure_initialized ::
  "PressureSensor \<Rightarrow> device \<Rightarrow> bool \<times> PressureSensor \<times> sensor_effect list" where
  "ensure_initialized s dev =
     (if initialized s \<and> adc_present s then (True, s, [])
      else if d_now dev - last_init_attempt s < init_retry_interval s \<and>
              initialization_attempts s > 0 then (False, s, [])
      else
        let s1 = s\<lparr> last_init_attempt := d_now dev,
                    initialization_attempts := initialization_attempts s + 1 \<rparr>
        in if d_init_ok dev then
             (True, s1\<lparr> adc_present := True, initialized := True,
                        consecutive_errors := [0, 0, 0, 0] \<rparr>, [InitDevice])
           else
             (False, s1\<lparr> initialized := False, adc_present := False \<rparr>, [InitDevice]))"

text \<open>Python's \<open>needle in text\<close> on strings.\<close>

fun starts_with :: "string \<Rightarrow> string \<Rightarrow> bool" where
  "starts_with [] text = True"
| "starts_with (p # ps) [] = False"
| "starts_with (p # ps) (c # cs) = (p = c \<and> starts_with ps cs)"

fun contains :: "string \<Rightarrow> string \<Rightarrow> bool" where
  "contains needle [] = (needle = [])"
| "contains needle (c # cs) = (starts_with needle (c # cs) \<or> contains needle cs)"

text \<open>\<open>self.consecutive_errors[channel] += 1\<close>\<close>

definition count_error :: "nat \<Rightarrow> PressureSensor \<Rightarrow> PressureSensor" where
  "count_error ch s =
     s\<lparr> consecutive_errors := (consecutive_errors s)[ch := consecutive_errors s ! ch + 1] \<rparr>"

text \<open>
  \<open>PressureSensor.read_voltage\<close>: the voltage or \<open>None\<close>, the sensor after the call
  and what the call did to the outside.
\<close>

definition read_voltage ::
  "PressureSensor \<Rightarrow> int \<Rightarrow> device \<Rightarrow> real option \<times> PressureSensor \<times> sensor_effect list" where
  "read_voltage s channel dev =
     (if \<not> (0 \<le> channel \<and> channel \<le> 3) then (None, s, [])
      else
        let ch = nat channel
        in if consecutive_errors s ! ch \<ge> max_consecutive_errors s then
             (if consecutive_errors s ! ch = max_consecutive_errors s
              then (None, count_error ch s, [])
              else (None, s, []))
           else
             let (ready, s1, effects1) =
                   (if \<not> initialized s \<or> \<not> adc_present s then ensure_initialized s dev
                    else (True, s, []))
             in if \<not> ready then (None, count_error ch s1, effects1)
                else
                  (case d_read_adc dev of
                     Inr raw \<Rightarrow>
                       (Some ((real_of_int raw / 32767) * 4.096),
                        s1\<lparr> consecutive_errors := (consecutive_errors s1)[ch := 0] \<rparr>,
                        effects1 @ [ReadDevice ch])
                   | Inl e \<Rightarrow>
                       (let s2 = count_error ch s1;
                            s3 = (if contains ''No such device'' e \<or> contains ''I/O error'' e
                                  then s2\<lparr> initialized := False, adc_present := False \<rparr>
                                  else s2)
                        in (None, s3, effects1 @ [ReadDevice ch]))))"

text \<open>
  \<open>PressureSensor.read_pressure\<close>. The conversion after a successful
  \<open>read_voltage\<close> is arithmetic on floats and list accesses within range; it does not
  raise, so the \<open>except\<close> clause of the method is not reached.
\<close>

definition read_pressure ::
  "PressureSensor \<Rightarrow> int \<Rightarrow> bool \<Rightarrow> device \<Rightarrow>
   real option \<times> PressureSensor \<times> sensor_effect list" where
  "read_pressure s channel apply_filter dev =
     (if \<not> (0 \<le> channel \<and> channel \<le> 3) then (None, s, [])
      else
        let ch = nat channel
        in if consecutive_errors s ! ch \<ge> max_consecutive_errors s then
             (if consecutive_errors s ! ch = max_consecutive_errors s
              then (None, s, [CooldownSleep (error_sleep_duration s)])
              else (None, s, []))
           else
             (case read_voltage s channel dev of
                (None, s1, effects1) \<Rightarrow> (None, s1, effects1)
              | (Some v, s1, effects1) \<Rightarrow>
                  let base_pressure = v * voltage_multiplier s1 * 1000 + voltage_offset s1 * 1000;
                      adjusted_pressure =
                        (if channel \<le> 2 then max 0 (base_pressure + chamber_offsets s1 ! ch)
                         else max 0 base_pressure)
                  in if apply_filter then
                       (let filtered = alpha s1 * adjusted_pressure
                                         + (1 - alpha s1) * filtered_values s1 ! ch
                        in (Some filtered,
                            s1\<lparr> filtered_values := (filtered_values s1)[ch := filtered] \<rparr>,
                            effects1))
                     else (Some adjusted_pressure, s1, effects1)))"

text \<open>
  Successive calls of \<open>read_pressure\<close> on one channel, one device answer per call: the
  values returned, the sensor at the end and everything done to the outside, in order.
\<close>

fun read_pressures ::
  "PressureSensor \<Rightarrow> int \<Rightarrow> device list \<Rightarrow>
   real option list \<times> PressureSensor \<times> sensor_effect list" where
  "read_pressures s channel [] = ([], s, [])"
| "read_pressures s channel (dev # devs) =
     (case read_pressure s channel True dev of
        (v, s1, effects1) \<Rightarrow>
          (case read_pressures s1 channel devs of
             (vs, s2, effects2) \<Rightarrow> (v # vs, s2, effects1 @ effects2)))"

text \<open>
  A sensor whose driver was constructed at time 0, and a converter that answers every read
  with a transient error.
\<close>

definition working_sensor :: PressureSensor where
  "working_sensor =
     fst (snd (ensure_initialized PressureSensor_new
                 \<lparr> d_now = 0, d_init_ok = True, d_read_adc = Inr 0 \<rparr>))"

definition failing_read :: device where
  "failing_read = \<lparr> d_now = 1, d_init_ok = True, d_read_adc = Inl ''timeout'' \<rparr>"

section \<open>Verified properties\<close>

subsection \<open>The TESTING phase\<close>

lemma dip_latched_refl: "dip_latched c c"
  by (simp add: dip_latched_def)

lemma dip_latched_sample: "dip_latched c0 c \<Longrightarrow> dip_latched c0 (testing_sample c)"
  by (auto simp: dip_latched_def testing_sample_def Let_def)

lemma dip_latched_finalize: "dip_latched c0 c \<Longrightarrow> dip_latched c0 (testing_finalize c)"
  by (auto simp: dip_latched_def testing_finalize_def)

lemma dip_latched_current:
  "dip_latched c0 c \<Longrightarrow> dip_latched c0 (c\<lparr> current_pressure := v \<rparr>)"
  by (simp add: dip_latched_def)

lemma dip_latched_publish:
  "list_all2 dip_latched cs0 chs \<Longrightarrow> list_all2 dip_latched cs0 (publish_pressures ps chs)"
proof (induction ps chs arbitrary: cs0 rule: publish_pressures.induct)
  case (1 p ps ch chs)
  then show ?case
    by (cases cs0) (auto split: option.splits intro: dip_latched_current)
qed simp_all

lemma dip_latched_map:
  assumes "list_all2 dip_latched cs0 chs"
      and "\<And>c0 c. dip_latched c0 c \<Longrightarrow> dip_latched c0 (f c)"
  shows "list_all2 dip_latched cs0 (map f chs)"
  using assms(1) by (induction rule: list_all2_induct) (auto intro: assms(2))

lemma check_stop_cases:
  "check_stop_requested m = (b, m1) \<Longrightarrow>
   chamber_states m1 = chamber_states m \<and> b = stop_requested m \<and>
   elapsed_time m1 = elapsed_time m \<and> stop_requested m1 = stop_requested m \<and>
   test_duration m1 = test_duration m"
  by (auto simp: check_stop_requested_def split: if_splits)

lemma dip_latched_body:
  "list_all2 dip_latched cs0 (chamber_states m) \<Longrightarrow>
   list_all2 dip_latched cs0 (chamber_states (testing_body s t m))"
  by (simp add: testing_body_def during_sleep_def Let_def dip_latched_publish
        dip_latched_map dip_latched_sample)

lemma dip_latched_loop:
  "list_all2 dip_latched cs0 (chamber_states m) \<Longrightarrow> testing_loop s d ticks m = Some m' \<Longrightarrow>
   list_all2 dip_latched cs0 (chamber_states m')"
proof (induction ticks arbitrary: m)
  case Nil
  then show ?case
    by (auto split: if_splits prod.splits bool.splits dest: check_stop_cases)
next
  case (Cons t ts)
  show ?case
  proof (cases "elapsed_time m < d")
    case False
    with Cons.prems show ?thesis by simp
  next
    case True
    obtain b m1 where c: "check_stop_requested m = (b, m1)"
      by (cases "check_stop_requested m")
    then have cs: "chamber_states m1 = chamber_states m"
      by (auto dest: check_stop_cases)
    show ?thesis
    proof (cases b)
      case True
      with \<open>elapsed_time m < d\<close> c Cons.prems cs show ?thesis by simp
    next
      case False
      with \<open>elapsed_time m < d\<close> c Cons.prems
      have "testing_loop s d ts (testing_body s t m1) = Some m'" by simp
      moreover have "list_all2 dip_latched cs0 (chamber_states (testing_body s t m1))"
        using Cons.prems(1) cs by (simp add: dip_latched_body)
      ultimately show ?thesis by (rule Cons.IH[rotated])
    qed
  qed
qed

lemma testing_phase_loop:
  assumes "run_testing_phase s ticks m = Some (ok, m')"
  obtains m1 where
    "testing_loop s (test_duration m) ticks
       (m\<lparr> test_phase := Some ''testing'', test_state := ''TESTING'' \<rparr>) = Some m1"
    and "chamber_states m' = map testing_finalize (chamber_states m1)"
    and "ok = (\<not> stop_requested m1)"
  using assms
  by (auto simp: run_testing_phase_def Let_def split: option.splits prod.splits
      dest: check_stop_cases)

lemma dip_latched_phase:
  assumes "run_testing_phase s ticks m = Some (ok, m')"
  shows "list_all2 dip_latched (chamber_states m) (chamber_states m')"
proof -
  let ?m0 = "m\<lparr> test_phase := Some ''testing'', test_state := ''TESTING'' \<rparr>"
  from assms obtain m1 where l: "testing_loop s (test_duration m) ticks ?m0 = Some m1"
    and f: "chamber_states m' = map testing_finalize (chamber_states m1)"
    by (rule testing_phase_loop)
  have "list_all2 dip_latched (chamber_states m) (chamber_states ?m0)"
    by (simp add: list_all2_refl dip_latched_refl)
  then have "list_all2 dip_latched (chamber_states m) (chamber_states m1)"
    using l by (rule dip_latched_loop)
  then show ?thesis
    by (simp add: f dip_latched_map dip_latched_finalize)
qed

text \<open>
  The loop ends: once the clock read in some iteration has reached the duration, the phase
  returns, whatever the readings.
\<close>

lemma testing_loop_returns:
  "\<exists>t \<in> set ticks. d \<le> t_now t - s \<Longrightarrow> \<exists>m'. testing_loop s d ticks m = Some m'"
proof (induction ticks arbitrary: m)
  case Nil
  then show ?case by simp
next
  case (Cons t ts)
  obtain b m1 where c: "check_stop_requested m = (b, m1)"
    by (cases "check_stop_requested m")
  show ?case
  proof (cases "elapsed_time m < d \<and> \<not> b")
    case False
    with c show ?thesis by auto
  next
    case True
    show ?thesis
    proof (cases "d \<le> t_now t - s")
      case True
      then have "\<not> elapsed_time (testing_body s t m1) < d"
        by (simp add: testing_body_def during_sleep_def Let_def)
      then have "\<exists>m'. testing_loop s d ts (testing_body s t m1) = Some m'"
        by (cases ts) simp_all
      with \<open>elapsed_time m < d \<and> \<not> b\<close> c show ?thesis by simp
    next
      case False
      with Cons.prems have "\<exists>t \<in> set ts. d \<le> t_now t - s" by simp
      then have "\<exists>m'. testing_loop s d ts (testing_body s t m1) = Some m'"
        by (rule Cons.IH)
      with \<open>elapsed_time m < d \<and> \<not> b\<close> c show ?thesis by simp
    qed
  qed
qed

lemma run_testing_phase_returns:
  "\<exists>t \<in> set ticks. test_duration m \<le> t_now t - s \<Longrightarrow>
   \<exists>ok m'. run_testing_phase s ticks m = Some (ok, m')"
proof -
  assume "\<exists>t \<in> set ticks. test_duration m \<le> t_now t - s"
  then obtain m1 where
    "testing_loop s (test_duration m) ticks
       (m\<lparr> test_phase := Some ''testing'', test_state := ''TESTING'' \<rparr>) = Some m1"
    using testing_loop_returns by blast
  then show ?thesis
    by (simp add: run_testing_phase_def Let_def split: prod.splits)
qed

text \<open>
  Nothing in the phase sets a result to true unless it is \<open>None\<close>: a chamber whose
  result is false when the phase starts, as \<open>reset\<close> leaves it, has a false result when
  the phase ends, whatever was sampled.
\<close>

lemma testing_sample_keeps_false:
  "result c = Some False \<Longrightarrow> result (testing_sample c) = Some False"
  by (simp add: testing_sample_def Let_def)

lemma testing_finalize_keeps_false:
  "result c = Some False \<Longrightarrow> result (testing_finalize c) = Some False"
  by (simp add: testing_finalize_def)

lemma publish_pressures_result:
  "map result (publish_pressures ps chs) = map result chs"
  by (induction ps chs rule: publish_pressures.induct) (auto split: option.splits)

lemma testing_body_keeps_false:
  assumes "\<forall>c \<in> set (chamber_states m). result c = Some False"
  shows "\<forall>c \<in> set (chamber_states (testing_body s t m)). result c = Some False"
proof -
  have "map result (chamber_states (testing_body s t m)) =
        map result (map testing_sample (chamber_states m))"
    by (simp add: testing_body_def during_sleep_def Let_def publish_pressures_result)
  also have "\<dots> = map result (chamber_states m)"
    using assms by (simp add: testing_sample_keeps_false)
  finally have "set (map result (chamber_states (testing_body s t m))) \<subseteq> {Some False}"
    using assms by auto
  then show ?thesis by auto
qed

lemma testing_loop_keeps_false:
  "\<forall>c \<in> set (chamber_states m). result c = Some False \<Longrightarrow>
   testing_loop s d ticks m = Some m' \<Longrightarrow>
   \<forall>c \<in> set (chamber_states m'). result c = Some False"
proof (induction ticks arbitrary: m)
  case Nil
  then show ?case
    by (auto split: if_splits prod.splits bool.splits dest: check_stop_cases)
next
  case (Cons t ts)
  obtain b m1 where c: "check_stop_requested m = (b, m1)"
    by (cases "check_stop_requested m")
  then have cs: "chamber_states m1 = chamber_states m"
    by (auto dest: check_stop_cases)
  show ?case
  proof (cases "elapsed_time m < d \<and> \<not> b")
    case False
    with c cs Cons.prems show ?thesis by (auto split: if_splits)
  next
    case True
    with c Cons.prems have "testing_loop s d ts (testing_body s t m1) = Some m'" by simp
    moreover have "\<forall>c \<in> set (chamber_states (testing_body s t m1)). result c = Some False"
      using Cons.prems(1) cs by (intro testing_body_keeps_false) simp
    ultimately show ?thesis by (rule Cons.IH[rotated])
  qed
qed

lemma testing_phase_keeps_false:
  assumes "run_testing_phase s ticks m = Some (ok, m')"
      and "\<forall>c \<in> set (chamber_states m). result c = Some False"
  shows "\<forall>c \<in> set (chamber_states m'). result c = Some False"
proof -
  let ?m0 = "m\<lparr> test_phase := Some ''testing'', test_state := ''TESTING'' \<rparr>"
  from assms(1) obtain m1 where l: "testing_loop s (test_duration m) ticks ?m0 = Some m1"
    and f: "chamber_states m' = map testing_finalize (chamber_states m1)"
    by (rule testing_phase_loop)
  have "\<forall>c \<in> set (chamber_states ?m0). result c = Some False"
    using assms(2) by simp
  then have "\<forall>c \<in> set (chamber_states m1). result c = Some False"
    using l by (rule testing_loop_keeps_false)
  then show ?thesis
    by (simp add: f testing_finalize_keeps_false)
qed

lemma start_test_init_result:
  "\<forall>c \<in> set (chamber_states (start_test_init m)). result c = Some False"
  by (simp add: start_test_init_def reset_def init_pid_controller_def)

lemmas testing_eval =
  stabilized_manager_def hold_ticks_def dip_ticks_def start_test_init_def TestManager_init_def
  ChamberTestState_init_def reset_def init_pid_controller_def mark_stabilized_def
  run_testing_phase_def testing_body_def during_sleep_def testing_sample_def
  testing_finalize_def check_stop_requested_def Let_def
  PRESSURE_DEFAULTS_TARGET_def PRESSURE_DEFAULTS_THRESHOLD_def PRESSURE_DEFAULTS_TOLERANCE_def
  TIME_DEFAULTS_TEST_DURATION_def

text \<open>
  C1. The claim: an enabled, stabilized chamber none of whose samples during TESTING fell
  below its threshold has a true result at the end of the run. The code does not do this.
  \<open>reset\<close> sets the result to \<open>False\<close>, and the phase assigns \<open>True\<close> only to
  a result that is \<open>None\<close>. In the run below the three default chambers (threshold 5)
  are held at 150 for the whole test duration: the phase returns true, every chamber has
  sampled 150 twice and is marked tested, every result is false, and the overall result is
  false.
\<close>

theorem testing_held_above_threshold_fails:
  "map_option
     (\<lambda>(ok, m'). (ok, map pressure_readings (chamber_states m'),
                   map pressure_threshold (chamber_states m'),
                   map tested (chamber_states m'),
                   map result (chamber_states m'),
                   overall_result (chamber_states m')))
     (run_testing_phase 0 hold_ticks (stabilized_manager 150)) =
   Some (True, [[150, 150], [150, 150], [150, 150]], [5, 5, 5], [True, True, True],
         [Some False, Some False, Some False], False)"
  by (simp add: testing_eval)

text \<open>
  C3. If a sample taken during TESTING from an enabled, stabilized chamber is strictly below
  the chamber's threshold, the chamber's result is false when the phase ends, whatever the
  result was before and whatever the later samples are. The samples of the phase are the
  readings it appended to \<open>pressure_readings\<close>. The steps of the run after the phase
  (\<open>_run_emptying_phase\<close>, \<open>_process_results\<close>) do not assign \<open>result\<close>.
\<close>

theorem testing_dip_latches_fail:
  assumes "run_testing_phase start_time ticks m = Some (ok, m')"
      and "i < length (chamber_states m)"
      and "enabled (chamber_states m ! i)"
      and "stabilized (chamber_states m ! i)"
      and "\<exists>p \<in> set (drop (length (pressure_readings (chamber_states m ! i)))
                          (pressure_readings (chamber_states m' ! i))).
              p < pressure_threshold (chamber_states m ! i)"
  shows "result (chamber_states m' ! i) = Some False"
proof -
  have "list_all2 dip_latched (chamber_states m) (chamber_states m')"
    using assms(1) by (rule dip_latched_phase)
  then have "dip_latched (chamber_states m ! i) (chamber_states m' ! i)"
    using assms(2) by (simp add: list_all2_nthD)
  with assms(5) show ?thesis by (simp add: dip_latched_def)
qed

text \<open>
  The run in which chamber 2 reads 150, 3, 150 (threshold 5): the dip is followed by a
  reading above the threshold, and the result is false.
\<close>

theorem testing_dip_latches_fail_witness:
  "\<exists>ok m'. run_testing_phase 0 dip_ticks (stabilized_manager 150) = Some (ok, m') \<and>
      enabled (chamber_states (stabilized_manager 150) ! 2) \<and>
      stabilized (chamber_states (stabilized_manager 150) ! 2) \<and>
      pressure_threshold (chamber_states (stabilized_manager 150) ! 2) = 5 \<and>
      pressure_readings (chamber_states (stabilized_manager 150) ! 2) = [] \<and>
      pressure_readings (chamber_states m' ! 2) = [150, 3, 150] \<and>
      result (chamber_states m' ! 2) = Some False"
proof -
  let ?m = "stabilized_manager 150"
  have "map_option (\<lambda>(ok, m'). pressure_readings (chamber_states m' ! 2))
          (run_testing_phase 0 dip_ticks ?m) = Some [150, 3, 150]"
    by (simp add: testing_eval)
  then obtain ok m' where r: "run_testing_phase 0 dip_ticks ?m = Some (ok, m')"
    and p: "pressure_readings (chamber_states m' ! 2) = [150, 3, 150]"
    by (cases "run_testing_phase 0 dip_ticks ?m") auto
  have s: "2 < length (chamber_states ?m)" "enabled (chamber_states ?m ! 2)"
    "stabilized (chamber_states ?m ! 2)" "pressure_threshold (chamber_states ?m ! 2) = 5"
    "pressure_readings (chamber_states ?m ! 2) = []"
    by (simp_all add: testing_eval)
  have "\<exists>p \<in> set (drop (length (pressure_readings (chamber_states ?m ! 2)))
                      (pressure_readings (chamber_states m' ! 2))).
          p < pressure_threshold (chamber_states ?m ! 2)"
    by (simp add: s p)
  with r s have "result (chamber_states m' ! 2) = Some False"
    by (intro testing_dip_latches_fail [of 0 dip_ticks ?m ok m' 2])
  with r s p show ?thesis by blast
qed

subsection \<open>set\_chamber\_parameters\<close>

lemma set_chamber_nth:
  "i < length (chamber_states m) \<Longrightarrow> chamber_states (set_chamber m i ch) ! i = ch"
  by (simp add: set_chamber_def)

text \<open>
  C10. \<open>set_chamber_parameters\<close> is not atomic on failure. Called while no test is
  running, for a chamber index in range, with a negative \<open>pressure_tolerance\<close>, it returns
  \<open>False\<close>; yet the \<open>enabled\<close> entry of the dictionary, if there is one, has been
  applied to the chamber, and so has a \<open>pressure_target\<close> entry within the allowed range.
\<close>

theorem set_chamber_parameters_not_atomic:
  assumes "\<not> running_test m"
      and "0 \<le> i" and "i \<le> 2"
      and "nat i < length (chamber_states m)"
      and "params ''pressure_tolerance'' = Some t"
      and "py_float t < 0"
  shows "fst (set_chamber_parameters m i params) = False \<and>
         (\<forall>e. params ''enabled'' = Some e \<longrightarrow>
              enabled (chamber_states (snd (set_chamber_parameters m i params)) ! nat i)
                = py_bool e) \<and>
         (\<forall>g. params ''pressure_target'' = Some g \<longrightarrow>
              0 \<le> py_float g \<longrightarrow> py_float g \<le> PRESSURE_DEFAULTS_MAX_PRESSURE \<longrightarrow>
              pressure_target (chamber_states (snd (set_chamber_parameters m i params)) ! nat i)
                = py_float g)"
  using assms
  by (auto simp: set_chamber_parameters_def Let_def set_chamber_nth split: option.splits)

text \<open>
  On a fresh manager, whose chamber 0 is enabled, the dictionary
  \<open>{'enabled': False, 'pressure_tolerance': -1}\<close> is refused and chamber 0 is disabled
  all the same.
\<close>

theorem set_chamber_parameters_not_atomic_witness:
  "fst (set_chamber_parameters TestManager_init 0 disable_with_bad_tolerance) = False \<and>
   enabled (chamber_states TestManager_init ! 0) = True \<and>
   enabled (chamber_states
     (snd (set_chamber_parameters TestManager_init 0 disable_with_bad_tolerance)) ! 0) = False"
proof -
  have h: "\<not> running_test TestManager_init" "(0::int) \<le> 0" "(0::int) \<le> 2"
    "nat 0 < length (chamber_states TestManager_init)"
    "disable_with_bad_tolerance ''pressure_tolerance'' = Some (PNum (- 1))"
    "py_float (PNum (- 1)) < 0"
    by (simp_all add: TestManager_init_def disable_with_bad_tolerance_def)
  have e: "disable_with_bad_tolerance ''enabled'' = Some (PBool False)"
    by (simp add: disable_with_bad_tolerance_def)
  from set_chamber_parameters_not_atomic
         [of TestManager_init 0 disable_with_bad_tolerance "PNum (- 1)", OF h] e
  show ?thesis
    by (simp add: TestManager_init_def ChamberTestState_init_def)
qed

subsection \<open>The test run\<close>

text \<open>
  The counting collaborators change nothing but the counter: each part of the run, on a
  world with a counter, does what it does without one; the phases before the emptying phase
  leave the counter as it is, and the inner \<open>finally\<close> block adds one to it.
\<close>

lemma counting_emptying_fields [simp]:
  "start_monitoring (counting_emptying env) = uncounted (start_monitoring env)"
  "filling_phase (counting_emptying env) = uncounted (filling_phase env)"
  "regulation_phase (counting_emptying env) = uncounted (regulation_phase env)"
  "stabilization_phase (counting_emptying env) = uncounted (stabilization_phase env)"
  "testing_phase (counting_emptying env) = uncounted (testing_phase env)"
  "emptying_phase (counting_emptying env) = counted (emptying_phase env)"
  "status_callback (counting_emptying env) = status_callback env"
  "report_results (counting_emptying env) = report_results env"
  by (simp_all add: counting_emptying_def)

lemma update_status_counting [simp]:
  "update_status (counting_emptying env) = update_status env"
  by (rule ext)+ (simp add: update_status_def)

lemma process_results_counting [simp]:
  "process_results (counting_emptying env) = process_results env"
  by (rule ext)+ (simp only: process_results_def update_status_counting counting_emptying_fields)

lemma phase_step_uncounted:
  "phase_step name failure (uncounted c) (trace, m, (w, n)) =
     with_count n (phase_step name failure c (trace, m, w))"
  by (simp add: phase_step_def uncounted_def with_count_def split: prod.split sum.split)

lemma run_phases_counting:
  "run_phases (counting_emptying env) (trace, m, (w, n)) =
     with_count n (run_phases env (trace, m, w))"
proof -
  obtain r1 t1 m1 w1 where 1: "phase_step ''_run_filling_phase'' ''Fill phase failed''
      (filling_phase env) (trace, m, w) = (r1, t1, m1, w1)"
    using prod_cases4 by blast
  obtain r2 t2 m2 w2 where 2: "phase_step ''_run_regulation_phase'' ''Regulation phase failed''
      (regulation_phase env) (t1, m1, w1) = (r2, t2, m2, w2)"
    using prod_cases4 by blast
  obtain r3 t3 m3 w3 where 3: "phase_step ''_run_stabilization_phase''
      ''Stabilization phase failed'' (stabilization_phase env) (t2, m2, w2) = (r3, t3, m3, w3)"
    using prod_cases4 by blast
  obtain r4 t4 m4 w4 where 4: "phase_step ''_run_testing_phase'' ''Testing phase failed''
      (testing_phase env) (t3, m3, w3) = (r4, t4, m4, w4)"
    using prod_cases4 by blast
  show ?thesis
    by (simp add: run_phases_def phase_step_uncounted 1 2 3 4 with_count_def
        split: sum.split)
qed

lemma run_cleanup_counting:
  "run_cleanup (counting_emptying env) success (trace, m, (w, n)) =
     with_count (Suc n) (run_cleanup env success (trace, m, w))"
  by (simp add: run_cleanup_def counted_def with_count_def split: prod.split sum.split)

lemma run_guarded_counting:
  "run_guarded (counting_emptying env) (trace, m, (w, n)) =
     with_count (Suc n) (run_guarded env (trace, m, w))"
proof -
  obtain r1 t1 m1 w1 where p: "run_phases env (trace, m, w) = (r1, t1, m1, w1)"
    using prod_cases4 by blast
  show ?thesis
    unfolding run_guarded_def run_phases_counting p
    by (simp add: with_count_def run_cleanup_counting Let_def split: prod.split sum.split)
qed

lemma phase_step_trace:
  assumes "phase_step name failure phase (trace, m, w) = (r, trace', m', w')"
  shows "trace' = trace @ [Invoked name]"
  using assms by (auto simp: phase_step_def split: prod.splits sum.splits if_splits)

lemma run_phases_trace:
  assumes "run_phases env (trace, m, w) = (r, trace', m', w')"
  shows "\<exists>xs. trace' = trace @ xs \<and>
     set xs \<subseteq> Invoked ` {''_run_filling_phase'', ''_run_regulation_phase'',
       ''_run_stabilization_phase'', ''_run_testing_phase''}"
proof -
  obtain r1 t1 m1 w1 where 1: "phase_step ''_run_filling_phase'' ''Fill phase failed''
      (filling_phase env) (trace, m, w) = (r1, t1, m1, w1)"
    using prod_cases4 by blast
  obtain r2 t2 m2 w2 where 2: "phase_step ''_run_regulation_phase'' ''Regulation phase failed''
      (regulation_phase env) (t1, m1, w1) = (r2, t2, m2, w2)"
    using prod_cases4 by blast
  obtain r3 t3 m3 w3 where 3: "phase_step ''_run_stabilization_phase''
      ''Stabilization phase failed'' (stabilization_phase env) (t2, m2, w2) = (r3, t3, m3, w3)"
    using prod_cases4 by blast
  obtain r4 t4 m4 w4 where 4: "phase_step ''_run_testing_phase'' ''Testing phase failed''
      (testing_phase env) (t3, m3, w3) = (r4, t4, m4, w4)"
    using prod_cases4 by blast
  note t = phase_step_trace[OF 1] phase_step_trace[OF 2] phase_step_trace[OF 3]
    phase_step_trace[OF 4]
  from assms 1 2 3 4 have "trace' = t1 \<or> trace' = t2 \<or> trace' = t3 \<or> trace' = t4"
    by (auto simp: run_phases_def split: sum.splits)
  with t show ?thesis by auto
qed

lemma run_cleanup_trace:
  assumes "run_cleanup env success (trace, m, w) = (r, trace', m', w')"
  shows "\<exists>post. trace' = trace @ Invoked ''_run_emptying_phase'' # post \<and>
     set post \<subseteq> Invoked ` {''_process_results'', ''_stop_monitoring''}"
  using assms by (auto simp: run_cleanup_def split: prod.splits sum.splits)

lemma run_guarded_trace:
  assumes "run_guarded env (trace, m, w) = (leaving, trace', m', w')"
  shows "\<exists>pre post. trace' = trace @ pre @ Invoked ''_run_emptying_phase'' # post \<and>
     set pre \<subseteq> Invoked ` {''_run_filling_phase'', ''_run_regulation_phase'',
       ''_run_stabilization_phase'', ''_run_testing_phase''} \<and>
     set post \<subseteq> Invoked ` {''_process_results'', ''_stop_monitoring''}"
proof -
  obtain r1 t1 m1 w1 where p: "run_phases env (trace, m, w) = (r1, t1, m1, w1)"
    using prod_cases4 by blast
  define m2 where "m2 = (case r1 of Inr _ \<Rightarrow> m1 | Inl e \<Rightarrow> m1\<lparr> test_state := ''ERROR'' \<rparr>)"
  obtain raised t3 m3 w3 where c: "run_cleanup env
      (case r1 of Inl _ \<Rightarrow> False | Inr _ \<Rightarrow> True) (t1, m2, w1) = (raised, t3, m3, w3)"
    using prod_cases4 by blast
  have "trace' = t3"
    using assms c unfolding run_guarded_def p m2_def
    by (cases r1) (simp_all add: Let_def split: prod.splits)
  moreover from run_phases_trace[OF p] obtain pre where "t1 = trace @ pre"
    "set pre \<subseteq> Invoked ` {''_run_filling_phase'', ''_run_regulation_phase'',
       ''_run_stabilization_phase'', ''_run_testing_phase''}"
    by blast
  moreover from run_cleanup_trace[OF c] obtain post where
    "t3 = t1 @ Invoked ''_run_emptying_phase'' # post"
    "set post \<subseteq> Invoked ` {''_process_results'', ''_stop_monitoring''}"
    by blast
  ultimately have "trace' = trace @ pre @ Invoked ''_run_emptying_phase'' # post \<and>
     set pre \<subseteq> Invoked ` {''_run_filling_phase'', ''_run_regulation_phase'',
       ''_run_stabilization_phase'', ''_run_testing_phase''} \<and>
     set post \<subseteq> Invoked ` {''_process_results'', ''_stop_monitoring''}"
    by simp
  then show ?thesis by blast
qed

text \<open>
  The whole run: once monitoring has started the inner statement is executed and the counter
  goes up by one; when \<open>_start_monitoring\<close> raises, the inner statement is skipped and
  the counter is as it was.
\<close>

lemma run_test_after_start:
  assumes "start_monitoring env m w = (Inr (), m0, w0)"
      and "run_guarded env ([Invoked ''_start_monitoring''], m0, w0) = (leaving, trace, m3, w3)"
  shows "\<exists>escaped m'. run_test env m w = (escaped, trace, m', w3) \<and> \<not> running_test m' \<and>
           run_test (counting_emptying env) m (w, n) = (escaped, trace, m', (w3, Suc n))"
proof -
  have c: "run_guarded (counting_emptying env) ([Invoked ''_start_monitoring''], m0, (w0, n))
      = (leaving, trace, m3, (w3, Suc n))"
    by (simp add: run_guarded_counting assms(2) with_count_def)
  show ?thesis
    unfolding run_test_def
    by (simp add: assms c uncounted_def Let_def split: option.split prod.split)
qed

lemma run_test_without_start:
  assumes "start_monitoring env m w = (Inl e, m0, w0)"
  shows "\<exists>escaped m'. run_test env m w = (escaped, [Invoked ''_start_monitoring''], m', w0) \<and>
           \<not> running_test m' \<and>
           run_test (counting_emptying env) m (w, n) =
             (escaped, [Invoked ''_start_monitoring''], m', (w0, n))"
  unfolding run_test_def
  by (simp add: assms uncounted_def Let_def split: option.split prod.split)

lemma emptying_not_earlier:
  "Invoked ''_run_emptying_phase'' \<notin> Invoked ` {''_start_monitoring'', ''_run_filling_phase'',
     ''_run_regulation_phase'', ''_run_stabilization_phase'', ''_run_testing_phase''}"
  by simp

lemma emptying_not_later:
  "Invoked ''_run_emptying_phase'' \<notin> Invoked ` {''_process_results'', ''_stop_monitoring''}"
  by simp

text \<open>
  C2, as the code has it. In every run in which \<open>_start_monitoring\<close> returns, whatever
  the four earlier phases do (return true, return false as on a timeout or a stop request,
  or raise), and whatever the observers and the emptying phase itself do, the emptying phase
  is executed exactly once: the run with the counting collaborators ends as the run itself
  does, with the counter one higher. \<open>_run_emptying_phase\<close> is invoked after the
  phases that ran and before the results are processed, and the run ends with
  \<open>running_test\<close> cleared.
\<close>

theorem emptying_executed_exactly_once:
  assumes "fst (start_monitoring env m w) = Inr ()"
  shows "(case run_test env m w of (escaped, trace, m', w') \<Rightarrow>
      run_test (counting_emptying env) m (w, n) = (escaped, trace, m', (w', Suc n)) \<and>
      count_list trace (Invoked ''_run_emptying_phase'') = 1 \<and>
      (\<exists>pre post. trace = pre @ Invoked ''_run_emptying_phase'' # post \<and>
         set pre \<subseteq> Invoked ` {''_start_monitoring'', ''_run_filling_phase'',
            ''_run_regulation_phase'', ''_run_stabilization_phase'', ''_run_testing_phase''} \<and>
         set post \<subseteq> Invoked ` {''_process_results'', ''_stop_monitoring''}) \<and>
      \<not> running_test m')"
proof -
  from assms obtain m0 w0 where sm: "start_monitoring env m w = (Inr (), m0, w0)"
    by (cases "start_monitoring env m w") auto
  obtain leaving trace m3 w3 where
    g: "run_guarded env ([Invoked ''_start_monitoring''], m0, w0) = (leaving, trace, m3, w3)"
    using prod_cases4 by blast
  from run_test_after_start[OF sm g, of n] obtain escaped m' where
    r: "run_test env m w = (escaped, trace, m', w3)" and nr: "\<not> running_test m'"
    and c: "run_test (counting_emptying env) m (w, n) = (escaped, trace, m', (w3, Suc n))"
    by blast
  from run_guarded_trace[OF g] obtain xs post where
    t: "trace = [Invoked ''_start_monitoring''] @ xs @ Invoked ''_run_emptying_phase'' # post"
    and xs: "set xs \<subseteq> Invoked ` {''_run_filling_phase'', ''_run_regulation_phase'',
       ''_run_stabilization_phase'', ''_run_testing_phase''}"
    and post: "set post \<subseteq> Invoked ` {''_process_results'', ''_stop_monitoring''}"
    by blast
  define pre where "pre = Invoked ''_start_monitoring'' # xs"
  have pre: "set pre \<subseteq> Invoked ` {''_start_monitoring'', ''_run_filling_phase'',
            ''_run_regulation_phase'', ''_run_stabilization_phase'', ''_run_testing_phase''}"
    unfolding pre_def using xs by (simp add: subset_insertI2)
  have e: "trace = pre @ Invoked ''_run_emptying_phase'' # post"
    by (simp add: t pre_def)
  have "Invoked ''_run_emptying_phase'' \<notin> set pre"
    using pre emptying_not_earlier by blast
  then have "count_list pre (Invoked ''_run_emptying_phase'') = 0"
    by (rule count_notin)
  moreover have "Invoked ''_run_emptying_phase'' \<notin> set post"
    using post emptying_not_later by blast
  then have "count_list post (Invoked ''_run_emptying_phase'') = 0"
    by (rule count_notin)
  ultimately have k: "count_list trace (Invoked ''_run_emptying_phase'') = 1"
    by (simp add: e)
  from e pre post have "\<exists>pre post. trace = pre @ Invoked ''_run_emptying_phase'' # post \<and>
         set pre \<subseteq> Invoked ` {''_start_monitoring'', ''_run_filling_phase'',
            ''_run_regulation_phase'', ''_run_stabilization_phase'', ''_run_testing_phase''} \<and>
         set post \<subseteq> Invoked ` {''_process_results'', ''_stop_monitoring''}"
    by blast
  with c k nr show ?thesis
    by (simp add: r)
qed

text \<open>
  The run whose regulation phase raises: the emptying phase follows the failed phase and
  vents once.
\<close>

theorem emptying_executed_exactly_once_witness:
  "(case run_test (counting_emptying regulation_raises) (start_test_init TestManager_init)
           ([], 0) of
      (escaped, trace, m', w') \<Rightarrow> (escaped, trace, test_state m', running_test m', w')) =
   (None,
    [Invoked ''_start_monitoring'', Invoked ''_run_filling_phase'',
     Invoked ''_run_regulation_phase'', Invoked ''_run_emptying_phase'',
     Invoked ''_process_results'', Invoked ''_stop_monitoring''],
    ''ERROR'', False, ([''vented''], 1))"
proof -
  let ?m = "start_test_init TestManager_init"
  have h: "fst (start_monitoring regulation_raises ?m []) = Inr ()"
    by (simp add: regulation_raises_def monitoring_starts_def)
  have e: "(case run_test regulation_raises ?m [] of
      (escaped, trace, m', w') \<Rightarrow> (escaped, trace, test_state m', running_test m', w')) =
   (None,
    [Invoked ''_start_monitoring'', Invoked ''_run_filling_phase'',
     Invoked ''_run_regulation_phase'', Invoked ''_run_emptying_phase'',
     Invoked ''_process_results'', Invoked ''_stop_monitoring''],
    ''ERROR'', False, [''vented''])"
    by code_simp
  obtain escaped trace m' w' where r: "run_test regulation_raises ?m [] = (escaped, trace, m', w')"
    using prod_cases4 by blast
  from emptying_executed_exactly_once [OF h, of 0]
  have "run_test (counting_emptying regulation_raises) ?m ([], 0) =
      (escaped, trace, m', (w', Suc 0))"
    by (simp add: r)
  with e r show ?thesis
    by simp
qed

text \<open>
  C2 as stated fails on a run in which the monitoring thread cannot be started: the
  exception of \<open>_start_monitoring\<close> is raised before the inner \<open>try\<close> is
  entered, no phase runs, the emptying phase is not executed (the counter stays 0, nothing is
  vented), and the run ends in the state ERROR.
\<close>

theorem emptying_skipped_counterexample:
  "(case run_test (counting_emptying monitoring_fails) (start_test_init TestManager_init)
           ([], 0) of
      (escaped, trace, m', w') \<Rightarrow> (escaped, trace, test_state m', running_test m', w')) =
   (None, [Invoked ''_start_monitoring''], ''ERROR'', False, ([], 0))"
  by code_simp

subsection \<open>The pressure regulator\<close>

lemma successive_differences:
  "map (\<lambda>i. h ! i - h ! (i - 1)) [1 ..< length h] = map (\<lambda>(a, b). b - a) (zip h (tl h))"
  by (rule nth_equalityI) (auto simp: nth_tl)

lemma history_avg_rate_mean:
  "history_avg_rate h =
     (if length h < 2 then 0
      else sum_list (map (\<lambda>(a, b). b - a) (zip h (tl h))) / real (length h - 1))"
proof (cases "length h < 2")
  case True
  then have "[1 ..< length h] = []" by simp
  then show ?thesis using True by (simp add: history_avg_rate_def)
next
  case False
  then have "max 1 (length h - 1) = length h - 1" by simp
  moreover have "(\<Sum>i \<leftarrow> [1 ..< length h]. h ! i - h ! (i - 1)) =
      sum_list (map (\<lambda>(a, b). b - a) (zip h (tl h)))"
    by (rule arg_cong[of _ _ sum_list, OF successive_differences])
  ultimately show ?thesis
    using False unfolding history_avg_rate_def by (simp only: if_False)
qed

lemma bounded_history:
  "length h \<le> 10 \<Longrightarrow>
   (if length (h @ [x]) > 10 then tl (h @ [x]) else h @ [x]) =
   drop (length (h @ [x]) - 10) (h @ [x])"
  by (cases h) (auto simp: drop_Cons')

lemma modes_of_mode:
  "modes (if a > threshold modes_fast then ''fast''
          else if a > threshold modes_medium then ''medium'' else ''fine'') \<noteq> None"
  by (simp add: modes_def)

text \<open>
  C6, as the code has it. A call of \<open>compute_adaptive_pulse\<close> that does not divide by
  a zero sample time returns \<open>pulse_on = max(0.05, base_pulse_on * (1 - rate_factor))\<close>
  and \<open>pulse_off = max(0.05, base_pulse_off * (1 + rate_factor))\<close> for the base
  durations of the returned mode, where \<open>rate_factor = min(1, |avg_rate| / 10)\<close>. The
  history holds pressures, the last ten at most including the current one, and
  \<open>avg_rate\<close> is the mean of the differences between successive entries of that
  history (zero while it has a single entry); the differences are not divided by the sample
  interval.
\<close>

theorem compute_adaptive_pulse_durations:
  assumes "last_pressure pid = None \<or> sample_time pid \<noteq> 0"
      and "length (pressure_history pid) \<le> 10"
  shows "\<exists>out pid' cfg.
           compute_adaptive_pulse pid cur = (Inr out, pid') \<and>
           modes (out_mode out) = Some cfg \<and>
           pressure_history pid' =
             drop (length (pressure_history pid @ [cur]) - 10) (pressure_history pid @ [cur]) \<and>
           length (pressure_history pid') \<le> 10 \<and>
           (let h = pressure_history pid';
                avg_rate = (if length h < 2 then 0
                            else sum_list (map (\<lambda>(a, b). b - a) (zip h (tl h)))
                                   / real (length h - 1));
                rate_factor = min 1 (\<bar>avg_rate\<bar> / 10)
            in out_pulse_on out = max 0.05 (pulse_on cfg * (1 - rate_factor)) \<and>
               out_pulse_off out = max 0.05 (pulse_off cfg * (1 + rate_factor)))"
proof -
  define mode where "mode = (if \<bar>setpoint pid - cur\<bar> > threshold modes_fast then ''fast''
          else if \<bar>setpoint pid - cur\<bar> > threshold modes_medium then ''medium'' else ''fine'')"
  obtain cfg where cfg: "modes mode = Some cfg"
    using modes_of_mode[of "\<bar>setpoint pid - cur\<bar>"] unfolding mode_def by blast
  define h where "h = drop (length (pressure_history pid @ [cur]) - 10) (pressure_history pid @ [cur])"
  have hh: "(if length (pressure_history pid @ [cur]) > 10 then tl (pressure_history pid @ [cur])
             else pressure_history pid @ [cur]) = h"
    unfolding h_def using assms(2) by (rule bounded_history)
  define rf where "rf = min 1 (\<bar>history_avg_rate h\<bar> / 10)"
  define out where "out = \<lparr> out_pulse_on = max 0.05 (pulse_on cfg * (1 - rf)),
      out_pulse_off = max 0.05 (pulse_off cfg * (1 + rf)), out_mode = mode \<rparr>"
  define pid' where "pid' = pid\<lparr> last_pressure := Some cur, pressure_history := h \<rparr>"
  have p1: "compute_adaptive_pulse pid cur = (Inr out, pid')"
    using assms(1) cfg hh
    unfolding compute_adaptive_pulse_def Let_def mode_def[symmetric] out_def rf_def pid'_def
    by (simp del: length_append)
  have p2: "modes (out_mode out) = Some cfg"
    by (simp add: out_def cfg)
  have ph: "pressure_history pid' = h"
    by (simp add: pid'_def)
  have p3: "pressure_history pid' =
      drop (length (pressure_history pid @ [cur]) - 10) (pressure_history pid @ [cur])"
    unfolding ph h_def ..
  have p4: "length (pressure_history pid') \<le> 10"
    unfolding ph h_def using assms(2) by simp
  have on: "out_pulse_on out = max 0.05 (pulse_on cfg * (1 - rf))"
    and off: "out_pulse_off out = max 0.05 (pulse_off cfg * (1 + rf))"
    by (simp_all only: out_def pulse.select_convs)
  have p5: "let h = pressure_history pid';
                avg_rate = (if length h < 2 then 0
                            else sum_list (map (\<lambda>(a, b). b - a) (zip h (tl h)))
                                   / real (length h - 1));
                rate_factor = min 1 (\<bar>avg_rate\<bar> / 10)
            in out_pulse_on out = max 0.05 (pulse_on cfg * (1 - rate_factor)) \<and>
               out_pulse_off out = max 0.05 (pulse_off cfg * (1 + rate_factor))"
    unfolding Let_def ph history_avg_rate_mean[symmetric] rf_def[symmetric]
    using on off by (rule conjI)
  from p1 p2 p3 p4 p5 show ?thesis by blast
qed

text \<open>
  A fresh controller with setpoint 150 and sample time 0.1 reads 100, then 101.
\<close>

theorem compute_adaptive_pulse_durations_witness:
  "\<exists>out pid'. compute_adaptive_pulse (feed (PIDControllerWrapper_init 150) [100]) 101
        = (Inr out, pid') \<and>
      pressure_history pid' = [100, 101] \<and>
      out_pulse_on out = 0.27 \<and> out_pulse_off out = 0.11 \<and> out_mode out = ''fast''"
proof -
  let ?pid = "feed (PIDControllerWrapper_init 150) [100]"
  have h: "last_pressure ?pid = None \<or> sample_time ?pid \<noteq> 0"
    "length (pressure_history ?pid) \<le> 10"
    by code_simp+
  have e: "fst (compute_adaptive_pulse ?pid 101) =
      Inr \<lparr> out_pulse_on = 0.27, out_pulse_off = 0.11, out_mode = ''fast'' \<rparr>"
    by code_simp
  have p: "pressure_history ?pid @ [101] = [100, 101]"
    by code_simp
  from compute_adaptive_pulse_durations [of ?pid 101, OF h]
  obtain out pid' where c: "compute_adaptive_pulse ?pid 101 = (Inr out, pid')"
    and "pressure_history pid' =
      drop (length (pressure_history ?pid @ [101]) - 10) (pressure_history ?pid @ [101])"
    by blast
  then have "pressure_history pid' = [100, 101]"
    by (simp only: p) simp
  moreover from c e have "out = \<lparr> out_pulse_on = 0.27, out_pulse_off = 0.11, out_mode = ''fast'' \<rparr>"
    by simp
  ultimately show ?thesis
    using c by simp
qed

text \<open>
  C6 as stated fails on that call. With the rates divided by the sample interval the second
  reading gives a rate of 10 mbar/s, a rate factor of 1 and the pulses 0.05 s on, 0.2 s off;
  the code averages the undivided difference 1, has a rate factor of 0.1 and returns 0.27 s
  on, 0.11 s off.
\<close>

theorem claimed_avg_rate_counterexample:
  "fst (compute_adaptive_pulse (feed (PIDControllerWrapper_init 150) [100]) 101) =
     Inr \<lparr> out_pulse_on = 0.27, out_pulse_off = 0.11, out_mode = ''fast'' \<rparr> \<and>
   sample_time (feed (PIDControllerWrapper_init 150) [100]) = 0.1 \<and>
   spec_pulse 0.1 modes_fast [100, 101] = (0.05, 0.2) \<and>
   fst (compute_adaptive_pulse (feed (PIDControllerWrapper_init 150) [100]) 101) \<noteq>
     Inr \<lparr> out_pulse_on = fst (spec_pulse 0.1 modes_fast [100, 101]),
           out_pulse_off = snd (spec_pulse 0.1 modes_fast [100, 101]),
           out_mode = ''fast'' \<rparr>"
  by code_simp

text \<open>
  The regulation loop of the test manager follows the words of the specification for the
  rates, but applies no floor to the pulses it sleeps: a chamber that is not marked regulated
  in an iteration is driven with the base durations of its mode scaled by the rate factor.
\<close>

lemma select_control_pulses:
  fixes a :: real and rates :: "real list"
  defines "cfg \<equiv> (if a > threshold fast_mode then fast_mode
                    else if a > threshold medium_mode then medium_mode else fine_mode)"
      and "avg \<equiv> (if rates = [] then 0 else sum_list rates / real (length rates))"
  shows "avg_rate (select_control a rates) = avg"
    and "adjusted_pulse_on (select_control a rates) = pulse_on cfg * (1 - min 1 (\<bar>avg\<bar> / 10))"
    and "adjusted_pulse_off (select_control a rates) = pulse_off cfg * (1 + min 1 (\<bar>avg\<bar> / 10))"
proof -
  consider "a > threshold fast_mode"
    | "\<not> a > threshold fast_mode" "a > threshold medium_mode"
    | "\<not> a > threshold fast_mode" "\<not> a > threshold medium_mode"
    by blast
  then have "select_control a rates =
      \<lparr> mode_name = (if a > threshold fast_mode then ''FAST''
                      else if a > threshold medium_mode then ''MEDIUM'' else ''FINE''),
        avg_rate = avg,
        adjusted_pulse_on = pulse_on cfg * (1 - min 1 (\<bar>avg\<bar> / 10)),
        adjusted_pulse_off = pulse_off cfg * (1 + min 1 (\<bar>avg\<bar> / 10)) \<rparr>"
  proof cases
    case 1
    then show ?thesis
      unfolding select_control_def cfg_def avg_def by (cases "rates = []") (simp_all add: Let_def)
  next
    case 2
    then show ?thesis
      unfolding select_control_def cfg_def avg_def by (cases "rates = []") (simp_all add: Let_def)
  next
    case 3
    then show ?thesis
      unfolding select_control_def cfg_def avg_def by (cases "rates = []") (simp_all add: Let_def)
  qed
  then show "avg_rate (select_control a rates) = avg"
    and "adjusted_pulse_on (select_control a rates) = pulse_on cfg * (1 - min 1 (\<bar>avg\<bar> / 10))"
    and "adjusted_pulse_off (select_control a rates) = pulse_off cfg * (1 + min 1 (\<bar>avg\<bar> / 10))"
    by simp_all
qed

lemma regulate_chamber_control:
  "(case regulate_chamber chamber entry of
      (chamber', entry', actions, ctl) \<Rightarrow>
        (case ctl of
           None \<Rightarrow> regulated chamber'
         | Some c \<Rightarrow>
             c = select_control \<bar>pressure_target chamber - current_pressure chamber\<bar>
                   (pressure_rates entry')))"
  by (simp add: regulate_chamber_def Let_def)

lemma regulate_chamber_rates_bounded:
  "length (pressure_rates entry) \<le> 10 \<Longrightarrow>
   length (pressure_rates (fst (snd (regulate_chamber chamber entry)))) \<le> 10"
  by (simp add: regulate_chamber_def Let_def split: option.split)




subsection \<open>The least-squares fit\<close>

lemma sum_zip_maps:
  "(\<Sum>(a, b) \<leftarrow> zip (map f ps) (map g ps). h a b) = (\<Sum>p \<leftarrow> ps. h (f p) (g p))"
  by (induction ps) simp_all

lemma sum_sq_zero_iff:
  fixes f :: "'a \<Rightarrow> real"
  shows "(\<Sum>p \<leftarrow> ps. (f p)\<^sup>2) = 0 \<longleftrightarrow> (\<forall>p \<in> set ps. f p = 0)"
proof (induction ps)
  case Nil
  then show ?case by simp
next
  case (Cons p ps)
  have "0 \<le> (\<Sum>p \<leftarrow> ps. (f p)\<^sup>2)"
    by (rule sum_list_nonneg) auto
  then show ?case
    using Cons.IH by (simp add: add_nonneg_eq_0_iff)
qed

text \<open>The voltages have a non-zero variance as soon as two of them differ.\<close>

lemma variance_nonzero:
  fixes xs :: "real list"
  assumes "a \<in> set xs" "b \<in> set xs" "a \<noteq> b"
  shows "(\<Sum>xi \<leftarrow> xs. (xi - np_mean xs)\<^sup>2) \<noteq> 0"
proof
  assume "(\<Sum>xi \<leftarrow> xs. (xi - np_mean xs)\<^sup>2) = 0"
  then have "\<forall>xi \<in> set xs. xi - np_mean xs = 0"
    by (simp only: sum_sq_zero_iff)
  with assms(1,2) have "a - np_mean xs = 0" "b - np_mean xs = 0"
    by blast+
  with assms(3) show False by simp
qed

lemma sum_sq_add:
  fixes f g :: "'a \<Rightarrow> real"
  shows "(\<Sum>p \<leftarrow> ps. (f p + g p)\<^sup>2) =
         (\<Sum>p \<leftarrow> ps. (f p)\<^sup>2) + 2 * (\<Sum>p \<leftarrow> ps. f p * g p) + (\<Sum>p \<leftarrow> ps. (g p)\<^sup>2)"
  by (induction ps) (simp_all add: power2_sum algebra_simps)

lemma sum_times_affine:
  fixes e x :: "'a \<Rightarrow> real"
  shows "(\<Sum>p \<leftarrow> ps. e p * (\<alpha> * x p + \<beta>)) =
         \<alpha> * (\<Sum>p \<leftarrow> ps. e p * x p) + \<beta> * (\<Sum>p \<leftarrow> ps. e p)"
  by (induction ps) (simp_all add: algebra_simps)

lemma sum_centered:
  fixes x y :: "'a \<Rightarrow> real"
  shows "(\<Sum>p \<leftarrow> ps. ((y p - c) - m * (x p - d)) * (x p - d)) =
         (\<Sum>p \<leftarrow> ps. (x p - d) * (y p - c)) - m * (\<Sum>p \<leftarrow> ps. (x p - d)\<^sup>2)"
  by (induction ps) (simp_all add: algebra_simps power2_eq_square)

lemma sum_minus_mean:
  fixes f :: "'a \<Rightarrow> real"
  assumes "ps \<noteq> []"
  shows "(\<Sum>p \<leftarrow> ps. f p - (\<Sum>p \<leftarrow> ps. f p) / real (length ps)) = 0"
proof -
  have "(\<Sum>p \<leftarrow> ps. f p - c) = (\<Sum>p \<leftarrow> ps. f p) - real (length ps) * c" for c
    by (induction ps) (simp_all add: algebra_simps)
  with assms show ?thesis by simp
qed

lemma sum_diff_scaled:
  fixes f g :: "'a \<Rightarrow> real"
  shows "(\<Sum>p \<leftarrow> ps. f p - m * g p) = (\<Sum>p \<leftarrow> ps. f p) - m * (\<Sum>p \<leftarrow> ps. g p)"
  by (induction ps) (simp_all add: algebra_simps)

lemma least_squares_optimal:
  fixes pts :: "CalibrationPoint list"
  defines "x_mean \<equiv> (\<Sum>p \<leftarrow> pts. voltage p) / real (length pts)"
      and "y_mean \<equiv> (\<Sum>p \<leftarrow> pts. pressure p) / real (length pts)"
  defines "slope \<equiv> (\<Sum>p \<leftarrow> pts. (voltage p - x_mean) * (pressure p - y_mean))
                      / (\<Sum>p \<leftarrow> pts. (voltage p - x_mean)\<^sup>2)"
  assumes nz: "(\<Sum>p \<leftarrow> pts. (voltage p - x_mean)\<^sup>2) \<noteq> 0"
  shows "residual_sum pts slope (y_mean - slope * x_mean) \<le> residual_sum pts a b"
proof -
  define icpt where "icpt = y_mean - slope * x_mean"
  define e where "e p = (pressure p - y_mean) - slope * (voltage p - x_mean)" for p :: CalibrationPoint
  define u where "u p = (slope - a) * voltage p + (icpt - b)" for p :: CalibrationPoint
  have ne: "pts \<noteq> []"
    using nz by auto
  have e_alt: "pressure p - (slope * voltage p + icpt) = e p" for p
    by (simp add: e_def icpt_def algebra_simps)
  have split: "pressure p - (a * voltage p + b) = e p + u p" for p
    by (simp add: e_def u_def icpt_def algebra_simps)
  have s0: "(\<Sum>p \<leftarrow> pts. e p) = 0"
  proof -
    have "(\<Sum>p \<leftarrow> pts. e p) =
        (\<Sum>p \<leftarrow> pts. pressure p - y_mean) - slope * (\<Sum>p \<leftarrow> pts. voltage p - x_mean)"
      unfolding e_def by (rule sum_diff_scaled)
    also have "\<dots> = 0"
      unfolding x_mean_def y_mean_def using ne by (simp add: sum_minus_mean)
    finally show ?thesis .
  qed
  have s1c: "(\<Sum>p \<leftarrow> pts. e p * (voltage p - x_mean)) = 0"
  proof -
    have "(\<Sum>p \<leftarrow> pts. e p * (voltage p - x_mean)) =
        (\<Sum>p \<leftarrow> pts. (voltage p - x_mean) * (pressure p - y_mean))
          - slope * (\<Sum>p \<leftarrow> pts. (voltage p - x_mean)\<^sup>2)"
      unfolding e_def by (rule sum_centered)
    also have "\<dots> = 0"
      using nz by (simp add: slope_def)
    finally show ?thesis .
  qed
  have s1: "(\<Sum>p \<leftarrow> pts. e p * voltage p) = 0"
  proof -
    have "(\<Sum>p \<leftarrow> pts. e p * (1 * voltage p + (- x_mean))) =
        1 * (\<Sum>p \<leftarrow> pts. e p * voltage p) + (- x_mean) * (\<Sum>p \<leftarrow> pts. e p)"
      by (rule sum_times_affine)
    with s0 s1c show ?thesis by simp
  qed
  have cross: "(\<Sum>p \<leftarrow> pts. e p * u p) = 0"
    unfolding u_def by (simp add: sum_times_affine s0 s1)
  have "residual_sum pts a b = (\<Sum>p \<leftarrow> pts. (e p + u p)\<^sup>2)"
    by (simp only: residual_sum_def split)
  also have "\<dots> = (\<Sum>p \<leftarrow> pts. (e p)\<^sup>2) + 2 * (\<Sum>p \<leftarrow> pts. e p * u p) + (\<Sum>p \<leftarrow> pts. (u p)\<^sup>2)"
    by (rule sum_sq_add)
  also have "\<dots> = residual_sum pts slope icpt + (\<Sum>p \<leftarrow> pts. (u p)\<^sup>2)"
    by (simp add: residual_sum_def e_alt cross)
  finally have "residual_sum pts a b = residual_sum pts slope icpt + (\<Sum>p \<leftarrow> pts. (u p)\<^sup>2)" .
  moreover have "0 \<le> (\<Sum>p \<leftarrow> pts. (u p)\<^sup>2)"
    by (rule sum_list_nonneg) auto
  ultimately show ?thesis
    by (simp add: icpt_def)
qed

text \<open>
  C5. For at least two calibration points whose voltages have a non-zero variance (a
  non-zero sum of squared deviations from their mean), both \<open>calculate_calibration\<close>
  functions return the ordinary-least-squares fit: the multiplier is
  \<open>\<Sum>((x\<^sub>i - x\<^sub>m)(y\<^sub>i - y\<^sub>m)) / \<Sum>((x\<^sub>i - x\<^sub>m)\<^sup>2)\<close>, the offset is
  \<open>y\<^sub>m - multiplier * x\<^sub>m\<close>, and no line has a smaller sum of squared residuals. The
  manager's function needs a selected chamber.
\<close>

theorem calculate_calibration_least_squares:
  fixes pts :: "CalibrationPoint list"
  defines "x_mean \<equiv> (\<Sum>p \<leftarrow> pts. voltage p) / real (length pts)"
      and "y_mean \<equiv> (\<Sum>p \<leftarrow> pts. pressure p) / real (length pts)"
  defines "slope \<equiv> (\<Sum>p \<leftarrow> pts. (voltage p - x_mean) * (pressure p - y_mean))
                      / (\<Sum>p \<leftarrow> pts. (voltage p - x_mean)\<^sup>2)"
  assumes "2 \<le> length pts"
      and "(\<Sum>p \<leftarrow> pts. (voltage p - x_mean)\<^sup>2) \<noteq> 0"
  shows "(\<exists>r. CalibrationDatabase_calculate_calibration cid pts now = Inr r \<and>
              multiplier r = Num slope \<and> offset r = Num (y_mean - slope * x_mean)) \<and>
         (\<exists>r. CalibrationManager_calculate_calibration
                 \<lparr> current_chamber = Some cid, calibration_points = pts \<rparr> now = Some r \<and>
              multiplier r = Num slope \<and> offset r = Num (y_mean - slope * x_mean)) \<and>
         (\<forall>a b. residual_sum pts slope (y_mean - slope * x_mean) \<le> residual_sum pts a b)"
proof -
  have xm: "np_mean (map voltage pts) = x_mean"
    by (simp add: np_mean_def x_mean_def)
  have ym: "np_mean (map pressure pts) = y_mean"
    by (simp add: np_mean_def y_mean_def)
  have sxx: "(\<Sum>xi \<leftarrow> map voltage pts. (xi - x_mean)\<^sup>2) = (\<Sum>p \<leftarrow> pts. (voltage p - x_mean)\<^sup>2)"
    by (simp add: comp_def)
  have sxy: "(\<Sum>(xi, yi) \<leftarrow> zip (map voltage pts) (map pressure pts). (xi - x_mean) * (yi - y_mean))
      = (\<Sum>p \<leftarrow> pts. (voltage p - x_mean) * (pressure p - y_mean))"
    by (rule sum_zip_maps)
  have l: "\<not> length pts < 2"
    using assms(4) by simp
  have db: "\<exists>r. CalibrationDatabase_calculate_calibration cid pts now = Inr r \<and>
              multiplier r = Num slope \<and> offset r = Num (y_mean - slope * x_mean)"
    unfolding CalibrationDatabase_calculate_calibration_def Let_def xm ym sxx sxy
    using l assms(5) by (simp add: slope_def np_sub_def)
  have mg: "\<exists>r. CalibrationManager_calculate_calibration
                 \<lparr> current_chamber = Some cid, calibration_points = pts \<rparr> now = Some r \<and>
              multiplier r = Num slope \<and> offset r = Num (y_mean - slope * x_mean)"
    unfolding CalibrationManager_calculate_calibration_def Let_def CalibrationManager.simps
      xm ym sxx sxy
    using l assms(5) by (simp add: slope_def)
  have opt: "\<forall>a b. residual_sum pts slope (y_mean - slope * x_mean) \<le> residual_sum pts a b"
    using assms(5) unfolding slope_def x_mean_def y_mean_def
    by (intro allI least_squares_optimal)
  from db mg opt show ?thesis by blast
qed

text \<open>
  The points (0 V, 0 mbar) and (1 V, 1000 mbar): multiplier 1000, offset 0 and a coefficient
  of determination of 1, from both functions.
\<close>

theorem calculate_calibration_least_squares_witness:
  "CalibrationDatabase_calculate_calibration 0 two_points 5 =
     Inr \<lparr> chamber_id = 0, multiplier = Num 1000, offset = Num 0, r_squared = Num 1,
           calibration_date = 5, points = two_points \<rparr> \<and>
   CalibrationManager_calculate_calibration
     \<lparr> current_chamber = Some 0, calibration_points = two_points \<rparr> 5 =
     Some \<lparr> chamber_id = 0, multiplier = Num 1000, offset = Num 0, r_squared = Num 1,
            calibration_date = 5, points = two_points \<rparr> \<and>
   residual_sum two_points 1000 0 \<le> residual_sum two_points 999 1"
proof -
  let ?xm = "(\<Sum>p \<leftarrow> two_points. voltage p) / real (length two_points)"
  let ?ym = "(\<Sum>p \<leftarrow> two_points. pressure p) / real (length two_points)"
  let ?slope = "(\<Sum>p \<leftarrow> two_points. (voltage p - ?xm) * (pressure p - ?ym))
                  / (\<Sum>p \<leftarrow> two_points. (voltage p - ?xm)\<^sup>2)"
  have h: "2 \<le> length two_points" "(\<Sum>p \<leftarrow> two_points. (voltage p - ?xm)\<^sup>2) \<noteq> 0"
    by (simp_all add: two_points_def)
  have s: "?slope = 1000" "?ym - ?slope * ?xm = 0"
    by (simp_all add: two_points_def power2_eq_square)
  have e: "CalibrationDatabase_calculate_calibration 0 two_points 5 =
     Inr \<lparr> chamber_id = 0, multiplier = Num 1000, offset = Num 0, r_squared = Num 1,
           calibration_date = 5, points = two_points \<rparr>"
    "CalibrationManager_calculate_calibration
     \<lparr> current_chamber = Some 0, calibration_points = two_points \<rparr> 5 =
     Some \<lparr> chamber_id = 0, multiplier = Num 1000, offset = Num 0, r_squared = Num 1,
            calibration_date = 5, points = two_points \<rparr>"
    by code_simp+
  from calculate_calibration_least_squares [of two_points 0 5, OF h]
  have "residual_sum two_points ?slope (?ym - ?slope * ?xm) \<le> residual_sum two_points 999 1"
    by blast
  then have "residual_sum two_points ?slope 0 \<le> residual_sum two_points 999 1"
    by (simp only: s(2))
  then have "residual_sum two_points 1000 0 \<le> residual_sum two_points 999 1"
    by (simp only: s(1))
  with e show ?thesis by simp
qed

lemma mean_of_equal:
  fixes f :: "'a \<Rightarrow> real"
  assumes "ps \<noteq> []" and "\<forall>p \<in> set ps. f p = c"
  shows "np_mean (map f ps) = c"
proof -
  have "map f ps = replicate (length ps) c"
    using assms(2) by (simp add: map_replicate_const[symmetric] cong: map_cong)
  then have "sum_list (map f ps) = real (length ps) * c"
    by (simp add: sum_list_replicate)
  with assms(1) show ?thesis
    by (simp add: np_mean_def)
qed

lemma np_sum_zeros: "\<forall>v \<in> set vs. v = Num 0 \<Longrightarrow> foldl np_add (Num a) vs = Num a"
  by (induction vs) simp_all

lemma flat_fit:
  fixes pts :: "CalibrationPoint list"
  assumes "2 \<le> length pts"
      and "\<forall>p \<in> set pts. pressure p = c"
  shows "np_mean (map pressure pts) = c"
    and "(\<Sum>yi \<leftarrow> map pressure pts. (yi - c)\<^sup>2) = 0"
    and "(\<Sum>(xi, yi) \<leftarrow> zip (map voltage pts) (map pressure pts). (xi - m) * (yi - c)) = 0"
proof -
  from assms(1) have "pts \<noteq> []" by auto
  then show "np_mean (map pressure pts) = c"
    using assms(2) by (rule mean_of_equal)
  show "(\<Sum>yi \<leftarrow> map pressure pts. (yi - c)\<^sup>2) = 0"
    using assms(2) by (induction pts) simp_all
  show "(\<Sum>(xi, yi) \<leftarrow> zip (map voltage pts) (map pressure pts). (xi - m) * (yi - c)) = 0"
    using assms(2) by (induction pts) simp_all
qed

text \<open>
  The two functions on points whose reference pressures are all equal and whose voltages
  vary. The manager's function guards the division by the total sum of squares and returns
  a coefficient of determination of 0; the database's function divides 0 by 0 and returns
  NaN.
\<close>

lemma database_r_squared_unguarded:
  fixes pts :: "CalibrationPoint list"
  assumes "2 \<le> length pts"
      and "\<forall>p \<in> set pts. pressure p = c"
      and "(\<Sum>xi \<leftarrow> map voltage pts. (xi - np_mean (map voltage pts))\<^sup>2) \<noteq> 0"
  shows "\<exists>r. CalibrationDatabase_calculate_calibration cid pts now = Inr r \<and>
             multiplier r = Num 0 \<and> offset r = Num c \<and> r_squared r = NaN"
proof -
  note f = flat_fit[OF assms(1,2)]
  have l: "\<not> length pts < 2"
    using assms(1) by simp
  have res: "np_sum (map (\<lambda>(yi, yp). np_mul (np_sub (Num yi) yp) (np_sub (Num yi) yp))
               (zip (map pressure pts)
                    (map (\<lambda>xi. np_add (np_mul (Num 0) (Num xi)) (Num c)) (map voltage pts))))
             = Num 0"
  proof -
    have "\<forall>v \<in> set (map (\<lambda>(yi, yp). np_mul (np_sub (Num yi) yp) (np_sub (Num yi) yp))
               (zip (map pressure pts)
                    (map (\<lambda>xi. np_add (np_mul (Num 0) (Num xi)) (Num c)) (map voltage pts)))).
            v = Num 0"
      using assms(2) by (induction pts) (simp_all add: np_sub_def Let_def)
    then show ?thesis
      unfolding np_sum_def by (rule np_sum_zeros)
  qed
  have e1: "np_div (Num 0)
               (Num (\<Sum>xi \<leftarrow> map voltage pts. (xi - np_mean (map voltage pts))\<^sup>2)) = Num 0"
    using assms(3) by simp
  have e2: "np_sub (Num c) (np_mul (Num 0) (Num z)) = Num c" for z
    by (simp add: np_sub_def)
  have e3: "np_sub (Num 1) (np_div (Num 0) (Num 0)) = NaN"
    by (simp add: np_sub_def)
  show ?thesis
    unfolding CalibrationDatabase_calculate_calibration_def Let_def f e1 e2 res e3
    using l by simp
qed

lemma manager_r_squared_guarded:
  fixes pts :: "CalibrationPoint list"
  assumes "2 \<le> length pts"
      and "\<forall>p \<in> set pts. pressure p = c"
      and "(\<Sum>xi \<leftarrow> map voltage pts. (xi - np_mean (map voltage pts))\<^sup>2) \<noteq> 0"
  shows "\<exists>r. CalibrationManager_calculate_calibration
               \<lparr> current_chamber = Some cid, calibration_points = pts \<rparr> now = Some r \<and>
             r_squared r = Num 0"
proof -
  note f = flat_fit[OF assms(1,2)]
  have l: "\<not> length pts < 2"
    using assms(1) by simp
  show ?thesis
    unfolding CalibrationManager_calculate_calibration_def Let_def CalibrationManager.simps f
    using l assms(3) by simp
qed

text \<open>
  C8. The claim: for at least two points with equal reference pressures and voltages of
  non-zero variance, the division by the total sum of squares is guarded and the returned
  \<open>r_squared\<close> is 0. \<open>CalibrationManager.calculate_calibration\<close> does this;
  \<open>CalibrationDatabase.calculate_calibration\<close> has no guard. On the points (0 V, 100
  mbar) and (1 V, 100 mbar) the database's function returns NaN where the manager's returns 0.
\<close>

theorem database_flat_points_r_squared_nan:
  "CalibrationDatabase_calculate_calibration 0 flat_points 5 =
     Inr \<lparr> chamber_id = 0, multiplier = Num 0, offset = Num 100, r_squared = NaN,
           calibration_date = 5, points = flat_points \<rparr> \<and>
   CalibrationManager_calculate_calibration
     \<lparr> current_chamber = Some 0, calibration_points = flat_points \<rparr> 5 =
     Some \<lparr> chamber_id = 0, multiplier = Num 0, offset = Num 100, r_squared = Num 0,
            calibration_date = 5, points = flat_points \<rparr>"
  by code_simp

subsection \<open>The calibration store\<close>

lemma insort_key_map:
  "insort_key f (h x) (map h ys) = map h (insort_key (\<lambda>a. f (h a)) x ys)"
  by (induction ys) simp_all

lemma sort_key_map:
  "sort_key f (map h xs) = map h (sort_key (\<lambda>a. f (h a)) xs)"
  by (induction xs) (simp_all add: insort_key_map)

lemma point_rebuilt:
  "\<lparr> pressure = pressure p, voltage = voltage p, timestamp = timestamp p \<rparr> = (p :: CalibrationPoint)"
  by (cases p) simp

lemma fetch_new_points:
  assumes "list_all (\<lambda>row. calibration_id row \<le> n) (calibration_point_rows db)"
      and "calibration_point_rows db' = calibration_point_rows db @ point_rows (Suc n) pts"
  shows "fetch_points db' (Suc n) = sort_key timestamp pts"
proof -
  have old: "filter (\<lambda>row. calibration_id row = Suc n) (calibration_point_rows db) = []"
    using assms(1) by (induction "calibration_point_rows db" arbitrary: db) (auto simp: filter_empty_conv list_all_iff)
  have new: "filter (\<lambda>row. calibration_id row = Suc n) (point_rows (Suc n) pts)
        = point_rows (Suc n) pts"
    by (simp add: point_rows_def)
  have "map (\<lambda>row. \<lparr> pressure = pt_pressure row, voltage = pt_voltage row,
                   timestamp = pt_timestamp row \<rparr>)
          (sort_key pt_timestamp (point_rows (Suc n) pts)) = sort_key timestamp pts"
    unfolding point_rows_def sort_key_map
    by (simp add: comp_def point_rebuilt)
  then show ?thesis
    by (simp add: fetch_points_def assms(2) old new)
qed

lemma fetch_old_points:
  assumes "k \<le> n"
      and "calibration_point_rows db' = calibration_point_rows db @ point_rows (Suc n) pts"
  shows "fetch_points db' k = fetch_points db k"
proof -
  have "filter (\<lambda>row. calibration_id row = k) (point_rows (Suc n) pts) = []"
    using assms(1) by (simp add: point_rows_def)
  then show ?thesis
    by (simp add: fetch_points_def assms(2))
qed

lemma deactivate_fields [simp]:
  "rec_id (deactivate c r) = rec_id r"
  "rec_chamber_id (deactivate c r) = rec_chamber_id r"
  "rec_multiplier (deactivate c r) = rec_multiplier r"
  "rec_offset (deactivate c r) = rec_offset r"
  "rec_r_squared (deactivate c r) = rec_r_squared r"
  "rec_calibration_date (deactivate c r) = rec_calibration_date r"
  by (simp_all add: deactivate_def)

lemma deactivate_active:
  "is_active (deactivate c r) \<longleftrightarrow> is_active r \<and> rec_chamber_id r \<noteq> c"
  by (auto simp: deactivate_def)

lemma holds_saved_length:
  "holds_saved db saved \<Longrightarrow> length (calibration_records db) = length saved"
  unfolding holds_saved_def by (metis length_map)

lemma stored_rebuilt:
  "\<lparr> chamber_id = chamber_id cal, multiplier = multiplier cal, offset = offset cal,
     r_squared = r_squared cal, calibration_date = calibration_date cal,
     points = sort_key timestamp (points cal) \<rparr> = stored cal"
  by (cases cal) (simp add: stored_def)

lemma save_calibration_holds:
  assumes inv: "holds_saved db saved" and st: "storable cal"
  shows "\<exists>db'. save_calibration db cal = Inr db' \<and> holds_saved db' (saved @ [cal])"
proof -
  define n where "n = length saved"
  have len: "length (calibration_records db) = n"
    using inv unfolding n_def by (rule holds_saved_length)
  define ins where "ins = \<lparr> rec_id = Suc n, rec_chamber_id = chamber_id cal,
      rec_multiplier = multiplier cal, rec_offset = offset cal, rec_r_squared = r_squared cal,
      rec_calibration_date = calibration_date cal, is_active = True \<rparr>"
  define db' where "db' = \<lparr> calibration_records =
        map (deactivate (chamber_id cal)) (calibration_records db) @ [ins],
      calibration_point_rows = calibration_point_rows db @ point_rows (Suc n) (points cal) \<rparr>"
  have s: "save_calibration db cal = Inr db'"
    using st by (simp add: save_calibration_def Let_def db'_def ins_def len)
  have rows': "calibration_point_rows db' =
      calibration_point_rows db @ point_rows (Suc n) (points cal)"
    by (simp add: db'_def)
  have recs': "calibration_records db' =
      map (deactivate (chamber_id cal)) (calibration_records db) @ [ins]"
    by (simp add: db'_def)
  from inv have i1: "map (\<lambda>r. result_of_record db (rec_chamber_id r) r) (calibration_records db)
       = map stored saved"
    and i2: "map rec_id (calibration_records db) = [1 ..< Suc n]"
    and i3: "list_all (\<lambda>row. calibration_id row \<le> n) (calibration_point_rows db)"
    and i4: "\<And>c. map (result_of_record db c)
               (filter (\<lambda>r. rec_chamber_id r = c \<and> is_active r) (calibration_records db))
            = (case filter (\<lambda>s. chamber_id s = c) (rev saved) of
                 [] \<Rightarrow> []
               | s # _ \<Rightarrow> [stored s])"
    unfolding holds_saved_def n_def by blast+
  have ids: "rec_id r \<le> n" if "r \<in> set (calibration_records db)" for r
  proof -
    from that have "rec_id r \<in> set (map rec_id (calibration_records db))" by simp
    then show ?thesis unfolding i2 by auto
  qed
  have old: "result_of_record db' (rec_chamber_id r) (deactivate (chamber_id cal) r)
               = result_of_record db (rec_chamber_id r) r"
    if "r \<in> set (calibration_records db)" for r
    using fetch_old_points[OF ids[OF that] rows']
    by (simp add: result_of_record_def)
  have new: "result_of_record db' (rec_chamber_id ins) ins = stored cal"
    using fetch_new_points[OF i3 rows']
    by (simp add: result_of_record_def ins_def stored_rebuilt)
  have p1: "map (\<lambda>r. result_of_record db' (rec_chamber_id r) r) (calibration_records db')
       = map stored (saved @ [cal])"
  proof -
    have "map (\<lambda>r. result_of_record db' (rec_chamber_id r) r)
            (map (deactivate (chamber_id cal)) (calibration_records db))
          = map (\<lambda>r. result_of_record db (rec_chamber_id r) r) (calibration_records db)"
      using old by (simp add: comp_def)
    then show ?thesis
      by (simp add: recs' new i1)
  qed
  have p2: "map rec_id (calibration_records db') = [1 ..< Suc (length (saved @ [cal]))]"
    using i2 by (simp add: recs' ins_def comp_def n_def)
  have p3: "list_all (\<lambda>row. calibration_id row \<le> length (saved @ [cal]))
              (calibration_point_rows db')"
    using i3 by (auto simp: rows' point_rows_def list_all_iff n_def)
  have p4: "map (result_of_record db' c)
               (filter (\<lambda>r. rec_chamber_id r = c \<and> is_active r) (calibration_records db'))
            = (case filter (\<lambda>s. chamber_id s = c) (rev (saved @ [cal])) of
                 [] \<Rightarrow> []
               | s # _ \<Rightarrow> [stored s])" for c
  proof (cases "c = chamber_id cal")
    case True
    have "filter (\<lambda>r. rec_chamber_id r = c \<and> is_active r)
            (map (deactivate (chamber_id cal)) (calibration_records db)) = []"
      by (auto simp: filter_empty_conv deactivate_active True)
    moreover have "result_of_record db' c ins = stored cal"
      using new True by (simp add: ins_def)
    ultimately show ?thesis
      using True by (simp add: recs' ins_def)
  next
    case False
    have "filter (\<lambda>r. rec_chamber_id r = c \<and> is_active r)
            (map (deactivate (chamber_id cal)) (calibration_records db))
          = map (deactivate (chamber_id cal))
              (filter (\<lambda>r. rec_chamber_id r = c \<and> is_active r) (calibration_records db))"
      using False by (simp add: filter_map comp_def deactivate_active cong: conj_cong)
    moreover have "map (result_of_record db' c)
          (map (deactivate (chamber_id cal))
              (filter (\<lambda>r. rec_chamber_id r = c \<and> is_active r) (calibration_records db)))
        = map (result_of_record db c)
              (filter (\<lambda>r. rec_chamber_id r = c \<and> is_active r) (calibration_records db))"
      using old by (auto simp: comp_def)
    ultimately show ?thesis
      using False i4[of c] by (simp add: recs' ins_def)
  qed
  have "holds_saved db' (saved @ [cal])"
    unfolding holds_saved_def using p1 p2 p3 p4 by blast
  with s show ?thesis by blast
qed

lemma save_calibration_not_storable:
  "\<not> storable cal \<Longrightarrow> save_calibration db cal = Inl ''IntegrityError''"
  by (simp add: save_calibration_def)

lemma save_all_holds:
  "holds_saved db saved \<Longrightarrow>
   holds_saved (save_all db cals) (saved @ filter storable cals)"
proof (induction cals arbitrary: db saved)
  case Nil
  then show ?case by simp
next
  case (Cons cal cals)
  show ?case
  proof (cases "storable cal")
    case True
    with Cons.prems obtain db' where s: "save_calibration db cal = Inr db'"
      and h: "holds_saved db' (saved @ [cal])"
      using save_calibration_holds by blast
    from Cons.IH[OF h] show ?thesis
      using True s by simp
  next
    case False
    with Cons.IH[OF Cons.prems] show ?thesis
      by (simp add: save_calibration_not_storable)
  qed
qed

lemma holds_saved_init: "holds_saved CalibrationDatabase_init []"
  by (simp add: holds_saved_def CalibrationDatabase_init_def)

lemma stored_chamber_id [simp]: "chamber_id (stored cal) = chamber_id cal"
  by (simp add: stored_def)

lemma stored_calibration_date [simp]: "calibration_date (stored cal) = calibration_date cal"
  by (simp add: stored_def)

lemma result_of_record_fields [simp]:
  "chamber_id (result_of_record db c r) = c"
  "calibration_date (result_of_record db c r) = rec_calibration_date r"
  by (simp_all add: result_of_record_def)

text \<open>
  The records of one chamber, read back, are the stored results of that chamber in the
  order of the saves.
\<close>

lemma holds_saved_chamber:
  assumes "holds_saved db saved"
  shows "map (result_of_record db c)
           (filter (\<lambda>r. rec_chamber_id r = c) (calibration_records db))
         = map stored (filter (\<lambda>s. chamber_id s = c) saved)"
proof -
  have "map (result_of_record db c) (filter (\<lambda>r. rec_chamber_id r = c) (calibration_records db))
      = map (\<lambda>r. result_of_record db (rec_chamber_id r) r)
          (filter (\<lambda>r. rec_chamber_id r = c) (calibration_records db))"
    by (rule map_cong) simp_all
  also have "\<dots> = filter (\<lambda>s. chamber_id s = c)
      (map (\<lambda>r. result_of_record db (rec_chamber_id r) r) (calibration_records db))"
    by (simp add: filter_map comp_def)
  also have "\<dots> = filter (\<lambda>s. chamber_id s = c) (map stored saved)"
    using assms by (simp add: holds_saved_def)
  also have "\<dots> = map stored (filter (\<lambda>s. chamber_id s = c) saved)"
    by (simp add: filter_map comp_def)
  finally show ?thesis .
qed

lemma order_by_date_desc_sorted:
  "sorted_wrt (\<lambda>a b. rec_calibration_date b \<le> rec_calibration_date a) (order_by_date_desc rs)"
proof -
  have "sorted (map rec_calibration_date (sort_key rec_calibration_date rs))"
    by (rule sorted_sort_key)
  then have "sorted_wrt (\<lambda>a b. rec_calibration_date a \<le> rec_calibration_date b)
      (sort_key rec_calibration_date rs)"
    by (simp add: sorted_map)
  then show ?thesis
    unfolding order_by_date_desc_def by (simp add: sorted_wrt_rev)
qed

lemma order_by_date_desc_mset [simp]: "mset (order_by_date_desc rs) = mset rs"
  by (simp add: order_by_date_desc_def)

lemma order_by_date_desc_length [simp]: "length (order_by_date_desc rs) = length rs"
  by (simp add: order_by_date_desc_def)

lemma history_of_saved:
  fixes c :: int and limit :: int
  assumes "holds_saved db saved"
  defines "of_c \<equiv> map stored (filter (\<lambda>s. chamber_id s = c) saved)"
      and "h \<equiv> get_calibration_history db c limit"
  shows "sorted_wrt (\<lambda>a b. calibration_date b \<le> calibration_date a) h"
    and "\<exists>rest. mset h + mset rest = mset of_c \<and>
           (\<forall>x \<in> set rest. \<forall>y \<in> set h. calibration_date x \<le> calibration_date y)"
    and "length h = (if limit < 0 then length of_c else min (nat limit) (length of_c))"
proof -
  define rs where "rs = filter (\<lambda>r. rec_chamber_id r = c) (calibration_records db)"
  define ordered where "ordered = order_by_date_desc rs"
  define k where "k = (if limit < 0 then length ordered else nat limit)"
  have fetched: "(if limit < 0 then ordered else take (nat limit) ordered) = take k ordered"
    by (simp add: k_def)
  have h: "h = map (result_of_record db c) (take k ordered)"
    unfolding h_def get_calibration_history_def Let_def rs_def[symmetric] ordered_def[symmetric]
      fetched ..
  have all: "map (result_of_record db c) rs = of_c"
    unfolding rs_def of_c_def using assms(1) by (rule holds_saved_chamber)
  have srt: "sorted_wrt (\<lambda>a b. rec_calibration_date b \<le> rec_calibration_date a) ordered"
    unfolding ordered_def by (rule order_by_date_desc_sorted)
  then have "sorted_wrt (\<lambda>a b. rec_calibration_date b \<le> rec_calibration_date a) (take k ordered)"
    by (rule sorted_wrt_take)
  then show "sorted_wrt (\<lambda>a b. calibration_date b \<le> calibration_date a) h"
    by (simp add: h sorted_wrt_map)
  define rest where "rest = map (result_of_record db c) (drop k ordered)"
  have "mset h + mset rest = mset (map (result_of_record db c) (take k ordered @ drop k ordered))"
    unfolding h rest_def by (simp only: map_append mset_append)
  also have "\<dots> = mset (map (result_of_record db c) rs)"
    by (simp add: ordered_def)
  finally have m: "mset h + mset rest = mset of_c"
    by (simp only: all)
  from srt have "sorted_wrt (\<lambda>a b. rec_calibration_date b \<le> rec_calibration_date a)
      (take k ordered @ drop k ordered)"
    by simp
  then have "\<forall>y \<in> set (take k ordered). \<forall>x \<in> set (drop k ordered).
      rec_calibration_date x \<le> rec_calibration_date y"
    unfolding sorted_wrt_append by blast
  then have o: "\<forall>x \<in> set rest. \<forall>y \<in> set h. calibration_date x \<le> calibration_date y"
    by (auto simp: h rest_def)
  from m o show "\<exists>rest. mset h + mset rest = mset of_c \<and>
           (\<forall>x \<in> set rest. \<forall>y \<in> set h. calibration_date x \<le> calibration_date y)"
    by blast
  have "length of_c = length ordered"
    unfolding all[symmetric] ordered_def by simp
  then show "length h = (if limit < 0 then length of_c else min (nat limit) (length of_c))"
    by (simp add: h k_def min.commute)
qed

lemma active_of_saved:
  fixes c :: int
  assumes "holds_saved db saved"
  shows "length (filter (\<lambda>r. rec_chamber_id r = c \<and> is_active r) (calibration_records db))
           = (if c \<in> chamber_id ` set saved then 1 else 0)"
    and "get_active_calibration db c =
           (case filter (\<lambda>s. chamber_id s = c) (rev saved) of
              [] \<Rightarrow> None
            | s # _ \<Rightarrow> Some (stored s))"
proof -
  define act where
    "act = filter (\<lambda>r. rec_chamber_id r = c \<and> is_active r) (calibration_records db)"
  define lastc where "lastc = filter (\<lambda>s. chamber_id s = c) (rev saved)"
  from assms have m: "map (result_of_record db c) act =
      (case lastc of [] \<Rightarrow> [] | s # _ \<Rightarrow> [stored s])"
    unfolding holds_saved_def act_def lastc_def by blast
  have e: "lastc = [] \<longleftrightarrow> c \<notin> chamber_id ` set saved"
    unfolding lastc_def by (auto simp: filter_empty_conv)
  have "length act = length (map (result_of_record db c) act)"
    by simp
  also have "\<dots> = (if c \<in> chamber_id ` set saved then 1 else 0)"
    unfolding m using e by (cases lastc) auto
  finally show "length (filter (\<lambda>r. rec_chamber_id r = c \<and> is_active r)
        (calibration_records db)) = (if c \<in> chamber_id ` set saved then 1 else 0)"
    unfolding act_def .
  have "get_active_calibration db c = (case lastc of [] \<Rightarrow> None | s # _ \<Rightarrow> Some (stored s))"
  proof (cases lastc)
    case Nil
    with m have "act = []" by simp
    then show ?thesis
      using Nil
      by (simp add: get_active_calibration_def act_def[symmetric] order_by_date_desc_def)
  next
    case (Cons s ss)
    with m obtain r where "act = [r]" and "result_of_record db c r = stored s"
      by (cases act) auto
    then show ?thesis
      using Cons
      by (simp add: get_active_calibration_def act_def[symmetric] order_by_date_desc_def)
  qed
  then show "get_active_calibration db c =
           (case filter (\<lambda>s. chamber_id s = c) (rev saved) of
              [] \<Rightarrow> None
            | s # _ \<Rightarrow> Some (stored s))"
    unfolding lastc_def .
qed

text \<open>
  C4. After any sequence of \<open>save_calibration\<close> calls on a new database (a call
  with a NaN value is refused by the \<open>NOT NULL\<close> columns and changes nothing), for
  every chamber: exactly one record is active if a result was saved for the chamber and none
  otherwise; the active record, as \<open>get_active_calibration\<close> returns it, is the result
  saved last for the chamber; every saved result is retained, in the order of the saves;
  and \<open>get_calibration_history\<close> returns saved results of the chamber in decreasing
  order of their calibration dates, as many as the limit allows (all of them for a negative
  limit), none of those left out being more recent than one returned. A result is read back
  with its points in the order of their timestamps.
\<close>

theorem saves_keep_one_active:
  fixes cals :: "CalibrationResult list" and chamber :: int and limit :: int
  defines "db \<equiv> save_all CalibrationDatabase_init cals"
      and "saved \<equiv> filter storable cals"
  shows "length (filter (\<lambda>r. rec_chamber_id r = chamber \<and> is_active r) (calibration_records db))
           = (if chamber \<in> chamber_id ` set saved then 1 else 0) \<and>
         get_active_calibration db chamber =
           (case filter (\<lambda>s. chamber_id s = chamber) (rev saved) of
              [] \<Rightarrow> None
            | s # _ \<Rightarrow> Some (stored s)) \<and>
         map (\<lambda>r. result_of_record db (rec_chamber_id r) r) (calibration_records db)
           = map stored saved \<and>
         (let h = get_calibration_history db chamber limit;
              of_chamber = map stored (filter (\<lambda>s. chamber_id s = chamber) saved)
          in sorted_wrt (\<lambda>a b. calibration_date b \<le> calibration_date a) h \<and>
             (\<exists>rest. mset h + mset rest = mset of_chamber \<and>
                (\<forall>x \<in> set rest. \<forall>y \<in> set h. calibration_date x \<le> calibration_date y)) \<and>
             length h = (if limit < 0 then length of_chamber
                         else min (nat limit) (length of_chamber)))"
proof -
  have inv: "holds_saved db saved"
    unfolding db_def saved_def
    using save_all_holds[OF holds_saved_init, of cals] by simp
  then have b: "map (\<lambda>r. result_of_record db (rec_chamber_id r) r) (calibration_records db)
           = map stored saved"
    unfolding holds_saved_def by blast
  from active_of_saved[OF inv, of chamber] b history_of_saved[OF inv, of chamber limit]
  show ?thesis
    unfolding Let_def by blast
qed

text \<open>
  Two results saved for chamber 0, with one for chamber 1 between them: the second is the
  only active record of chamber 0, and the history of chamber 0 with limit 10 is the second,
  then the first.
\<close>

theorem saves_keep_one_active_witness:
  "length (filter (\<lambda>r. rec_chamber_id r = 0 \<and> is_active r)
     (calibration_records (save_all CalibrationDatabase_init
        [first_calibration, other_calibration, second_calibration]))) = 1 \<and>
   map is_active (calibration_records (save_all CalibrationDatabase_init
        [first_calibration, other_calibration, second_calibration])) = [False, True, True] \<and>
   get_calibration_history (save_all CalibrationDatabase_init
        [first_calibration, other_calibration, second_calibration]) 0 10
     = [second_calibration, first_calibration]"
proof -
  let ?cals = "[first_calibration, other_calibration, second_calibration]"
  have "0 \<in> chamber_id ` set (filter storable ?cals)"
    by (simp add: storable_def first_calibration_def)
  with saves_keep_one_active [of 0 ?cals 10]
  have "length (filter (\<lambda>r. rec_chamber_id r = 0 \<and> is_active r)
     (calibration_records (save_all CalibrationDatabase_init ?cals))) = 1"
    by simp
  moreover have "map is_active (calibration_records (save_all CalibrationDatabase_init ?cals))
      = [False, True, True]"
    by code_simp
  moreover have "get_calibration_history (save_all CalibrationDatabase_init ?cals) 0 10
     = [second_calibration, first_calibration]"
    by code_simp
  ultimately show ?thesis by simp
qed

subsection \<open>The pressure sensor\<close>

text \<open>
  A failed read of an enabled channel returns \<open>None\<close> and adds one to the channel's
  counter, whether the converter raised or the driver could not be constructed.
\<close>

lemma read_voltage_failure_counts:
  assumes "0 \<le> channel" "channel \<le> 3"
      and "nat channel < length (consecutive_errors s)"
      and "consecutive_errors s ! nat channel < max_consecutive_errors s"
      and "initialized s" "adc_present s"
      and "d_read_adc dev = Inl e"
  shows "fst (read_voltage s channel dev) = None"
    and "consecutive_errors (fst (snd (read_voltage s channel dev))) ! nat channel
           = consecutive_errors s ! nat channel + 1"
  using assms by (simp_all add: read_voltage_def count_error_def Let_def)

lemma read_voltage_init_failure_counts:
  assumes "0 \<le> channel" "channel \<le> 3"
      and "nat channel < length (consecutive_errors s)"
      and "consecutive_errors s ! nat channel < max_consecutive_errors s"
      and "\<not> initialized s \<or> \<not> adc_present s"
      and "\<not> fst (ensure_initialized s dev)"
  shows "fst (read_voltage s channel dev) = None"
    and "consecutive_errors (fst (snd (read_voltage s channel dev))) ! nat channel
           = consecutive_errors s ! nat channel + 1"
  using assms
  by (auto simp: read_voltage_def ensure_initialized_def count_error_def Let_def
      split: if_splits)

text \<open>A successful read sets the channel's counter to zero.\<close>

lemma read_voltage_success_resets:
  assumes "0 \<le> channel" "channel \<le> 3"
      and "nat channel < length (consecutive_errors s)"
      and "consecutive_errors s ! nat channel < max_consecutive_errors s"
      and "initialized s" "adc_present s"
      and "d_read_adc dev = Inr raw"
  shows "fst (read_voltage s channel dev) = Some ((real_of_int raw / 32767) * 4.096)"
    and "consecutive_errors (fst (snd (read_voltage s channel dev))) ! nat channel = 0"
  using assms by (simp_all add: read_voltage_def Let_def)

text \<open>
  On an enabled channel \<open>read_pressure\<close> touches the counters and the outside only
  through \<open>read_voltage\<close>.
\<close>

lemma read_pressure_counter:
  assumes "0 \<le> channel" "channel \<le> 3"
      and "consecutive_errors s ! nat channel < max_consecutive_errors s"
  shows "consecutive_errors (fst (snd (read_pressure s channel flt dev)))
           = consecutive_errors (fst (snd (read_voltage s channel dev)))"
    and "snd (snd (read_pressure s channel flt dev)) = snd (snd (read_voltage s channel dev))"
    and "fst (read_pressure s channel flt dev) = None \<longleftrightarrow> fst (read_voltage s channel dev) = None"
  using assms
  by (auto simp: read_pressure_def Let_def split: prod.splits option.splits)

text \<open>
  Once the counter has reached the threshold, both reads return \<open>None\<close> without
  constructing the driver or reading the converter.
\<close>

lemma disabled_reads_short_circuit:
  assumes "0 \<le> channel" "channel \<le> 3"
      and "consecutive_errors s ! nat channel \<ge> max_consecutive_errors s"
  shows "fst (read_voltage s channel dev) = None"
    and "snd (snd (read_voltage s channel dev)) = []"
    and "fst (read_pressure s channel flt dev) = None"
    and "InitDevice \<notin> set (snd (snd (read_pressure s channel flt dev)))"
    and "ReadDevice k \<notin> set (snd (snd (read_pressure s channel flt dev)))"
  using assms by (simp_all add: read_voltage_def read_pressure_def Let_def)

text \<open>
  \<open>read_pressure\<close> sleeps whenever the counter equals the threshold, and leaves the
  counter as it is: only \<open>read_voltage\<close> moves it past the threshold. A sequence of
  \<open>read_pressure\<close> calls on a channel at the threshold sleeps once per call.
\<close>

lemma read_pressure_at_threshold:
  assumes "0 \<le> channel" "channel \<le> 3"
      and "consecutive_errors s ! nat channel = max_consecutive_errors s"
  shows "read_pressure s channel flt dev = (None, s, [CooldownSleep (error_sleep_duration s)])"
  using assms by (simp add: read_pressure_def Let_def)

lemma read_pressures_at_threshold:
  assumes "0 \<le> channel" "channel \<le> 3"
      and "consecutive_errors s ! nat channel = max_consecutive_errors s"
  shows "read_pressures s channel devs =
           (replicate (length devs) None, s,
            replicate (length devs) (CooldownSleep (error_sleep_duration s)))"
  using assms by (induction devs) (simp_all add: read_pressure_at_threshold)

text \<open>
  C9. The claim: failed reads count up, a channel at the threshold (5) is disabled and
  further reads return nothing without touching the device, with a one-time cooldown sleep
  at the threshold, and a successful read resets the counter. The lemmas above confirm all
  of it but the one-time sleep, which the source announces (``Only sleep if we just hit the
  threshold'') and does not do. Seven \<open>read_pressure\<close> calls on channel 0 of a working
  sensor whose converter fails every read: five reads of the device bring the counter to 5;
  the sixth and the seventh call each sleep 2 s, and the counter is still 5.
\<close>

theorem disabled_channel_sleeps_on_every_read:
  "(case read_pressures working_sensor 0 (replicate 7 failing_read) of
      (values, s, effects) \<Rightarrow> (values, consecutive_errors s, max_consecutive_errors s, effects)) =
   ([None, None, None, None, None, None, None], [5, 0, 0, 0], 5,
    [ReadDevice 0, ReadDevice 0, ReadDevice 0, ReadDevice 0, ReadDevice 0,
     CooldownSleep 2, CooldownSleep 2])"
  by code_simp

end
